theory Spec2Isabelle
  imports Main "HOL-Library.Sublist" "HOL-Library.Multiset"
begin

section \<open>The exam seating system: data model\<close>

text \<open>
  The embedding follows \<^verbatim>\<open>ExamSeatingSystem\<close> in \<^verbatim>\<open>seating_arrangement.py\<close>.
  Python dictionaries with a fixed set of keys are records, dictionaries used as
  finite maps are maps, Python integers are \<open>int\<close>, course and roll identifiers
  are strings.
\<close>

text \<open>
  A room of \<^verbatim>\<open>self.rooms\<close>: the dictionary
  \<^verbatim>\<open>{'Room': ..., 'Capacity': ..., 'filled': 0, 'assignments': {}}\<close>.
\<close>

record room =
  Room :: string
  Capacity :: int
  filled :: int
  assignments :: "string \<rightharpoonup> string list"

text \<open>
  A slot of \<^verbatim>\<open>self.schedule\<close>. The keys \<^verbatim>\<open>'IsoDate'\<close> and \<^verbatim>\<open>'Day'\<close> are read with
  \<^verbatim>\<open>slot_info.get(key, '')\<close>, so they may be absent.
\<close>

record slot_info =
  Date :: string
  IsoDate :: "string option"
  Day :: "string option"
  Session :: string
  Courses :: "string list"

text \<open>
  An entry of \<^verbatim>\<open>self.allocations\<close>; the keys of the source dictionary are
  \<^verbatim>\<open>Date, IsoDate, Day, Session, Course, Room, Count, Students\<close>.
\<close>

record allocation =
  alloc_Date :: string
  alloc_IsoDate :: string
  alloc_Day :: string
  alloc_Session :: string
  alloc_Course :: string
  alloc_Room :: string
  alloc_Count :: int
  alloc_Students :: "string list"

text \<open>
  An entry of \<^verbatim>\<open>self.room_stats\<close>; the keys of the source dictionary are
  \<^verbatim>\<open>Date, Session, Room, Allocated, Free\<close>.
\<close>

record room_stat =
  stat_Date :: string
  stat_Session :: string
  stat_Room :: string
  Allocated :: int
  Free :: int

text \<open>The attributes of an \<^verbatim>\<open>ExamSeatingSystem\<close> object.\<close>

record exam_seating_system =
  schedule :: "slot_info list"
  course_enrollments :: "string \<rightharpoonup> string list"
  student_names :: "string \<rightharpoonup> string"
  rooms :: "room list"
  allocations :: "allocation list"
  room_stats :: "room_stat list"

section \<open>Library functions of Python used by the engine\<close>

text \<open>\<^verbatim>\<open>d.get(k, default)\<close> on a dictionary.\<close>

definition dict_get :: "('k \<rightharpoonup> 'v) \<Rightarrow> 'k \<Rightarrow> 'v \<Rightarrow> 'v" where
  "dict_get d k dflt = (case d k of None \<Rightarrow> dflt | Some v \<Rightarrow> v)"

text \<open>
  \<^verbatim>\<open>sorted(xs, key=key, reverse=True)\<close>: Python's sort is stable, and with
  \<^verbatim>\<open>reverse=True\<close> elements with equal keys still keep their original order, so
  it is the stable ascending sort on the negated key.
\<close>

definition sorted_reverse :: "('a \<Rightarrow> int) \<Rightarrow> 'a list \<Rightarrow> 'a list" where
  "sorted_reverse key xs = sort_key (\<lambda>x. - key x) xs"

section \<open>The clash detector\<close>

text \<open>
  The inner loop of \<^verbatim>\<open>check_clashes\<close> over one roster. The result is \<open>None\<close>
  when the loop executes \<^verbatim>\<open>return True\<close>, and otherwise the dictionary
  \<^verbatim>\<open>seen_students\<close> after the loop.
\<close>

fun check_roster ::
  "(string \<rightharpoonup> string) \<Rightarrow> string \<Rightarrow> string list \<Rightarrow> (string \<rightharpoonup> string) option" where
  "check_roster seen_students course [] = Some seen_students"
| "check_roster seen_students course (roll # students) =
     (if seen_students roll \<noteq> None then None
      else check_roster (seen_students(roll \<mapsto> course)) course students)"

text \<open>The outer loop of \<^verbatim>\<open>check_clashes\<close> over the courses of the slot.\<close>

fun check_courses ::
  "(string \<rightharpoonup> string list) \<Rightarrow> (string \<rightharpoonup> string) \<Rightarrow> string list \<Rightarrow> bool" where
  "check_courses enr seen_students [] = False"
| "check_courses enr seen_students (course # courses_in_slot) =
     (case check_roster seen_students course (dict_get enr course []) of
        None \<Rightarrow> True
      | Some seen_students' \<Rightarrow> check_courses enr seen_students' courses_in_slot)"

text \<open>
  \<^verbatim>\<open>check_clashes(self, courses_in_slot)\<close>. The method returns its verdict; the
  second component is the object \<^verbatim>\<open>self\<close> as the method leaves it. The only
  store the method writes is its local dictionary \<^verbatim>\<open>seen_students\<close>.
\<close>

definition check_clashes ::
  "exam_seating_system \<Rightarrow> string list \<Rightarrow> bool \<times> exam_seating_system" where
  "check_clashes self courses_in_slot =
     (check_courses (course_enrollments self) Map.empty courses_in_slot, self)"

section \<open>The allocation engine\<close>

text \<open>
  The body of the loop \<^verbatim>\<open>for room in self.rooms\<close> for one room, entered with a
  non-empty working list \<^verbatim>\<open>students\<close>. It returns the working list, the room and
  the allocation records appended by this iteration.
\<close>

definition seat_in_room ::
  "slot_info \<Rightarrow> int \<Rightarrow> string \<Rightarrow> string \<Rightarrow> string list \<Rightarrow> room
     \<Rightarrow> string list \<times> room \<times> allocation list" where
  "seat_in_room slot buffer mode course students room =
     (let eff_cap = max 0 (Capacity room - buffer);
          subj_limit = (if mode = ''sparse'' then eff_cap div 2 else eff_cap);
          space_in_room = eff_cap - filled room;
          take_n = min (min (int (length students)) space_in_room) subj_limit
      in if take_n > 0 then
           (let batch = take (nat take_n) students;
                students' = drop (nat take_n) students;
                room' = room\<lparr>filled := filled room + take_n,
                             assignments := (assignments room)
                               (course \<mapsto> dict_get (assignments room) course [] @ batch)\<rparr>
            in (students', room',
                [\<lparr>alloc_Date = Date slot,
                  alloc_IsoDate = (case IsoDate slot of None \<Rightarrow> '''' | Some d \<Rightarrow> d),
                  alloc_Day = (case Day slot of None \<Rightarrow> '''' | Some d \<Rightarrow> d),
                  alloc_Session = Session slot,
                  alloc_Course = course,
                  alloc_Room = Room room,
                  alloc_Count = take_n,
                  alloc_Students = batch\<rparr>]))
         else (students, room, []))"

text \<open>
  The loop \<^verbatim>\<open>for room in self.rooms\<close> for one course: it stops (\<^verbatim>\<open>break\<close>) as soon
  as the working list is empty. It returns the final working list (the candidates
  of the course that got no seat), the rooms and the records appended.
\<close>

fun seat_course ::
  "slot_info \<Rightarrow> int \<Rightarrow> string \<Rightarrow> string \<Rightarrow> string list \<Rightarrow> room list
     \<Rightarrow> string list \<times> room list \<times> allocation list" where
  "seat_course slot buffer mode course students [] = (students, [], [])"
| "seat_course slot buffer mode course students (room # rest) =
     (if students = [] then (students, room # rest, [])
      else
        (case seat_in_room slot buffer mode course students room of
           (students', room', recs) \<Rightarrow>
             (case seat_course slot buffer mode course students' rest of
                (students'', rest', recs') \<Rightarrow> (students'', room' # rest', recs @ recs'))))"

text \<open>
  The loop \<^verbatim>\<open>for course in courses_sorted\<close>: a course with an empty roster is
  skipped (\<^verbatim>\<open>continue\<close>). It returns the rooms and the records appended.
\<close>

fun seat_courses ::
  "(string \<rightharpoonup> string list) \<Rightarrow> slot_info \<Rightarrow> int \<Rightarrow> string \<Rightarrow> string list \<Rightarrow> room list
     \<Rightarrow> room list \<times> allocation list" where
  "seat_courses enr slot buffer mode [] rms = (rms, [])"
| "seat_courses enr slot buffer mode (course # courses_sorted) rms =
     (let students = dict_get enr course [] in
      if students = [] then seat_courses enr slot buffer mode courses_sorted rms
      else
        (case seat_course slot buffer mode course students rms of
           (_, rms', recs) \<Rightarrow>
             (case seat_courses enr slot buffer mode courses_sorted rms' of
                (rms'', recs') \<Rightarrow> (rms'', recs @ recs'))))"

text \<open>The first loop of \<^verbatim>\<open>allocate_session\<close>, for one room.\<close>

definition reset_room :: "room \<Rightarrow> room" where
  "reset_room r = r\<lparr>filled := 0, assignments := Map.empty\<rparr>"

text \<open>The entry the last loop of \<^verbatim>\<open>allocate_session\<close> appends for one room.\<close>

definition room_stat_of :: "slot_info \<Rightarrow> room \<Rightarrow> room_stat" where
  "room_stat_of slot r =
     \<lparr>stat_Date = Date slot, stat_Session = Session slot, stat_Room = Room r,
      Allocated = filled r, Free = Capacity r - filled r\<rparr>"

text \<open>The order in which \<^verbatim>\<open>allocate_session\<close> walks the courses of a slot.\<close>

definition courses_sorted :: "(string \<rightharpoonup> string list) \<Rightarrow> string list \<Rightarrow> string list" where
  "courses_sorted enr courses =
     sorted_reverse (\<lambda>c. int (length (dict_get enr c []))) courses"

text \<open>
  \<^verbatim>\<open>allocate_session(self, slot_info, buffer, mode)\<close>: the object before the call
  to the object after it. The rooms are reset, a clash ends the call at once, and
  otherwise the courses are seated and one statistic per room is appended.
\<close>

definition allocate_session ::
  "exam_seating_system \<Rightarrow> slot_info \<Rightarrow> int \<Rightarrow> string \<Rightarrow> exam_seating_system" where
  "allocate_session self slot buffer mode =
     (let self1 = self\<lparr>rooms := map reset_room (rooms self)\<rparr>;
          courses = Courses slot;
          sorted_courses = courses_sorted (course_enrollments self1) courses
      in case check_clashes self1 courses of
           (True, self2) \<Rightarrow> self2
         | (False, self2) \<Rightarrow>
             (case seat_courses (course_enrollments self2) slot buffer mode
                     sorted_courses (rooms self2) of
                (rms, recs) \<Rightarrow>
                  self2\<lparr>rooms := rms,
                        allocations := allocations self2 @ recs,
                        room_stats := room_stats self2 @ map (room_stat_of slot) rms\<rparr>))"

section \<open>Notions used to state the properties\<close>

text \<open>The records a call appended to a log: what the log holds beyond its old length.\<close>

definition new_allocations :: "exam_seating_system \<Rightarrow> exam_seating_system \<Rightarrow> allocation list" where
  "new_allocations before after = drop (length (allocations before)) (allocations after)"

definition new_room_stats :: "exam_seating_system \<Rightarrow> exam_seating_system \<Rightarrow> room_stat list" where
  "new_room_stats before after = drop (length (room_stats before)) (room_stats after)"

text \<open>The number of candidates of a course seated in a room: \<^verbatim>\<open>len(room['assignments'][course])\<close>,
  and 0 when the course has no entry.\<close>

definition seated_count :: "room \<Rightarrow> string \<Rightarrow> nat" where
  "seated_count r course = length (dict_get (assignments r) course [])"

text \<open>The sum of \<^verbatim>\<open>Count\<close> over the records of a list that name a given room.\<close>

definition count_in_room :: "string \<Rightarrow> allocation list \<Rightarrow> int" where
  "count_in_room name recs = sum_list (map alloc_Count (filter (\<lambda>a. alloc_Room a = name) recs))"

text \<open>The candidates the records of a list hold for a course, in append order.\<close>

definition students_of_course :: "string \<Rightarrow> allocation list \<Rightarrow> string list" where
  "students_of_course course recs =
     concat (map alloc_Students (filter (\<lambda>a. alloc_Course a = course) recs))"

text \<open>Two different courses of the list share a candidate.\<close>

definition shares_candidate :: "(string \<rightharpoonup> string list) \<Rightarrow> string list \<Rightarrow> bool" where
  "shares_candidate enr courses =
     (\<exists>c1 \<in> set courses. \<exists>c2 \<in> set courses.
        c1 \<noteq> c2 \<and> (\<exists>roll \<in> set (dict_get enr c1 []). roll \<in> set (dict_get enr c2 [])))"

section \<open>Auxiliary notions of the proofs\<close>

text \<open>The value of \<^verbatim>\<open>take\<close> in the loop body, as a function of what it is computed from.\<close>

definition take_of :: "int \<Rightarrow> string \<Rightarrow> string list \<Rightarrow> room \<Rightarrow> int" where
  "take_of b m students r =
     min (min (int (length students)) (max 0 (Capacity r - b) - filled r))
         (if m = ''sparse'' then max 0 (Capacity r - b) div 2 else max 0 (Capacity r - b))"

text \<open>The sum of \<^verbatim>\<open>filled\<close> over the rooms of a list that carry a given name.\<close>

definition filled_in :: "string \<Rightarrow> room list \<Rightarrow> int" where
  "filled_in name rms = sum_list (map filled (filter (\<lambda>r. Room r = name) rms))"

text \<open>The candidates of a course seated in the rooms of a list that carry a given name.\<close>

definition seated_in :: "string \<Rightarrow> string \<Rightarrow> room list \<Rightarrow> int" where
  "seated_in name course rms =
     sum_list (map (\<lambda>r. int (seated_count r course)) (filter (\<lambda>r. Room r = name) rms))"

text \<open>The sum of \<^verbatim>\<open>Count\<close> over the records of a list for a given course and room name.\<close>

definition count_for :: "string \<Rightarrow> string \<Rightarrow> allocation list \<Rightarrow> int" where
  "count_for course name recs =
     sum_list (map alloc_Count
       (filter (\<lambda>a. alloc_Course a = course \<and> alloc_Room a = name) recs))"

text \<open>
  How seating the courses \<open>cs\<close> changes a room: name and capacity stay, the entries
  of other courses stay, and each course of \<open>cs\<close> gets one batch appended, at most half
  the effective capacity in sparse mode.
\<close>

definition room_evolves :: "int \<Rightarrow> string \<Rightarrow> string set \<Rightarrow> room \<Rightarrow> room \<Rightarrow> bool" where
  "room_evolves b m cs r r' \<longleftrightarrow>
     Room r' = Room r \<and> Capacity r' = Capacity r \<and>
     (\<forall>c. c \<notin> cs \<longrightarrow> assignments r' c = assignments r c) \<and>
     (\<forall>c \<in> cs. \<exists>batch.
        dict_get (assignments r') c [] = dict_get (assignments r) c [] @ batch \<and>
        (m = ''sparse'' \<longrightarrow> int (length batch) \<le> max 0 (Capacity r - b) div 2))"

section \<open>Example inputs\<close>

text \<open>A small enrolment index: courses A and B are disjoint, C shares a candidate with A.\<close>

definition example_enrollments :: "string \<rightharpoonup> string list" where
  "example_enrollments =
     [''A'' \<mapsto> [''a1'', ''a2'', ''a3'', ''a4'', ''a5''],
      ''B'' \<mapsto> [''b1'', ''b2'', ''b3''],
      ''C'' \<mapsto> [''a1'', ''c1'']]"

text \<open>
  A system with two rooms in descending capacity; the first room still carries
  the state of an earlier slot.
\<close>

definition example_system :: exam_seating_system where
  "example_system =
     \<lparr>schedule = [], course_enrollments = example_enrollments, student_names = Map.empty,
      rooms = [\<lparr>Room = ''R1'', Capacity = 6, filled = 4, assignments = [''Z'' \<mapsto> [''z1'']]\<rparr>,
               \<lparr>Room = ''R2'', Capacity = 4, filled = 0, assignments = Map.empty\<rparr>],
      allocations = [], room_stats = []\<rparr>"

text \<open>A slot without a clash, a slot with a clash and a slot without courses.\<close>

definition example_slot :: slot_info where
  "example_slot =
     \<lparr>Date = ''01-12-2025'', IsoDate = Some ''20251201'', Day = Some ''Monday'',
      Session = ''Morning'', Courses = [''B'', ''A'']\<rparr>"

definition clash_slot :: slot_info where
  "clash_slot = example_slot\<lparr>Courses := [''A'', ''C'']\<rparr>"

definition empty_slot :: slot_info where
  "empty_slot = example_slot\<lparr>Courses := []\<rparr>"

text \<open>An enrolment index in which the roster of a course lists a candidate twice.\<close>

definition duplicate_roll_system :: exam_seating_system where
  "duplicate_roll_system =
     example_system\<lparr>course_enrollments := [''A'' \<mapsto> [''r1'', ''r1'']]\<rparr>"

text \<open>A roster of \<open>n\<close> different roll numbers that start with a given character.\<close>

definition roster_of :: "char \<Rightarrow> nat \<Rightarrow> string list" where
  "roster_of tag n = map (\<lambda>i. tag # replicate i CHR ''x'') [0..<n]"

text \<open>
  The system of the ordering scenario: course A has 50 candidates, B has 10, C has
  30, and the first room can hold them all.
\<close>

definition sized_system :: exam_seating_system where
  "sized_system =
     \<lparr>schedule = [],
      course_enrollments =
        [''A'' \<mapsto> roster_of CHR ''a'' 50,
         ''B'' \<mapsto> roster_of CHR ''b'' 10,
         ''C'' \<mapsto> roster_of CHR ''c'' 30],
      student_names = Map.empty,
      rooms = [\<lparr>Room = ''H1'', Capacity = 120, filled = 0, assignments = Map.empty\<rparr>,
               \<lparr>Room = ''R2'', Capacity = 4, filled = 0, assignments = Map.empty\<rparr>],
      allocations = [], room_stats = []\<rparr>"

text \<open>The slot of the ordering scenario, with the courses in the source order A, B, C.\<close>

definition sized_slot :: slot_info where
  "sized_slot = example_slot\<lparr>Courses := [''A'', ''B'', ''C'']\<rparr>"

text \<open>A system whose two rooms carry the same name.\<close>

definition same_name_system :: exam_seating_system where
  "same_name_system =
     example_system\<lparr>rooms :=
       [\<lparr>Room = ''D'', Capacity = 4, filled = 0, assignments = Map.empty\<rparr>,
        \<lparr>Room = ''D'', Capacity = 3, filled = 0, assignments = Map.empty\<rparr>]\<rparr>"

text \<open>A slot whose course list names the same course twice.\<close>

definition repeated_course_slot :: slot_info where
  "repeated_course_slot = example_slot\<lparr>Courses := [''B'', ''B'']\<rparr>"

section \<open>The clash detector: what it computes\<close>

lemma check_roster_None:
  "check_roster seen c xs = None \<longleftrightarrow> \<not> (distinct xs \<and> set xs \<inter> dom seen = {})"
  by (induction xs arbitrary: seen) (auto simp: dom_def)

lemma check_roster_Some:
  "check_roster seen c xs = Some seen' \<Longrightarrow> dom seen' = dom seen \<union> set xs"
  by (induction xs arbitrary: seen) (auto split: if_splits)

lemma check_courses_iff:
  "check_courses enr seen cs \<longleftrightarrow>
     \<not> (distinct (concat (map (\<lambda>c. dict_get enr c []) cs))
        \<and> set (concat (map (\<lambda>c. dict_get enr c []) cs)) \<inter> dom seen = {})"
proof (induction cs arbitrary: seen)
  case Nil
  show ?case by simp
next
  case (Cons c cs)
  show ?case
  proof (cases "check_roster seen c (dict_get enr c [])")
    case None
    then show ?thesis using check_roster_None[of seen c "dict_get enr c []"] by auto
  next
    case (Some seen')
    have a: "distinct (dict_get enr c []) \<and> set (dict_get enr c []) \<inter> dom seen = {}"
      using Some check_roster_None[of seen c "dict_get enr c []"] by auto
    have b: "dom seen' = dom seen \<union> set (dict_get enr c [])"
      using Some by (rule check_roster_Some)
    show ?thesis using Some a b Cons.IH[of seen'] by auto
  qed
qed

lemma check_clashes_distinct:
  "fst (check_clashes self cs) \<longleftrightarrow>
     \<not> distinct (concat (map (\<lambda>c. dict_get (course_enrollments self) c []) cs))"
  by (simp add: check_clashes_def check_courses_iff)

lemma distinct_concat_disjoint:
  "distinct (concat (map f cs)) \<Longrightarrow> c1 \<in> set cs \<Longrightarrow> c2 \<in> set cs \<Longrightarrow> c1 \<noteq> c2
     \<Longrightarrow> set (f c1) \<inter> set (f c2) = {}"
proof (induction cs)
  case Nil
  then show ?case by simp
next
  case (Cons c cs)
  have d: "distinct (concat (map f cs))" and
       e: "\<And>c'. c' \<in> set cs \<Longrightarrow> set (f c) \<inter> set (f c') = {}"
    using Cons.prems(1) by auto
  consider "c1 = c" "c2 \<in> set cs" | "c2 = c" "c1 \<in> set cs" | "c1 \<in> set cs" "c2 \<in> set cs"
    using Cons.prems by auto
  then show ?case
  proof cases
    case 1 then show ?thesis using e by simp
  next
    case 2 then show ?thesis using e[of c1] by (simp add: Int_commute)
  next
    case 3 then show ?thesis using Cons.IH d Cons.prems(4) by simp
  qed
qed

lemma disjoint_distinct_concat:
  "distinct cs \<Longrightarrow> \<forall>c \<in> set cs. distinct (f c) \<Longrightarrow>
   \<forall>c1 \<in> set cs. \<forall>c2 \<in> set cs. c1 \<noteq> c2 \<longrightarrow> set (f c1) \<inter> set (f c2) = {} \<Longrightarrow>
   distinct (concat (map f cs))"
proof (induction cs)
  case Nil
  show ?case by simp
next
  case (Cons c cs)
  have c: "c \<notin> set cs" "distinct (f c)" "distinct cs" using Cons.prems by auto
  have e: "\<And>c'. c' \<in> set cs \<Longrightarrow> set (f c) \<inter> set (f c') = {}"
  proof -
    fix c' assume a: "c' \<in> set cs"
    then have "c \<noteq> c'" using c(1) by auto
    then show "set (f c) \<inter> set (f c') = {}" using Cons.prems(3) a by simp
  qed
  have "distinct (concat (map f cs))"
    using Cons.IH c(3) Cons.prems(2,3) by simp
  then show ?case using c(2) e by auto
qed

lemma shares_candidate_iff:
  assumes "distinct cs" and "\<forall>c \<in> set cs. distinct (dict_get enr c [])"
  shows "shares_candidate enr cs \<longleftrightarrow> \<not> distinct (concat (map (\<lambda>c. dict_get enr c []) cs))"
proof
  assume "shares_candidate enr cs"
  then show "\<not> distinct (concat (map (\<lambda>c. dict_get enr c []) cs))"
    unfolding shares_candidate_def
    using distinct_concat_disjoint[of "\<lambda>c. dict_get enr c []" cs] by (meson disjoint_iff)
next
  assume "\<not> distinct (concat (map (\<lambda>c. dict_get enr c []) cs))"
  then show "shares_candidate enr cs"
    unfolding shares_candidate_def
    using disjoint_distinct_concat[of cs "\<lambda>c. dict_get enr c []", OF assms]
    by (meson disjoint_iff)
qed

lemma shares_not_distinct:
  "shares_candidate enr cs \<Longrightarrow> \<not> distinct (concat (map (\<lambda>c. dict_get enr c []) cs))"
  unfolding shares_candidate_def
  using distinct_concat_disjoint[of "\<lambda>c. dict_get enr c []" cs] by (meson disjoint_iff)

section \<open>The loop body\<close>

lemma seat_in_room_skip:
  "\<not> 0 < take_of b m students r \<Longrightarrow> seat_in_room slot b m c students r = (students, r, [])"
  by (simp add: seat_in_room_def take_of_def Let_def)

lemma seat_in_room_take:
  "0 < take_of b m students r \<Longrightarrow>
   seat_in_room slot b m c students r =
     (drop (nat (take_of b m students r)) students,
      r\<lparr>filled := filled r + take_of b m students r,
        assignments := (assignments r)
          (c \<mapsto> dict_get (assignments r) c [] @ take (nat (take_of b m students r)) students)\<rparr>,
      [\<lparr>alloc_Date = Date slot,
        alloc_IsoDate = (case IsoDate slot of None \<Rightarrow> '''' | Some d \<Rightarrow> d),
        alloc_Day = (case Day slot of None \<Rightarrow> '''' | Some d \<Rightarrow> d),
        alloc_Session = Session slot,
        alloc_Course = c,
        alloc_Room = Room r,
        alloc_Count = take_of b m students r,
        alloc_Students = take (nat (take_of b m students r)) students\<rparr>])"
  by (simp add: seat_in_room_def take_of_def Let_def)

lemma take_of_le_length: "take_of b m students r \<le> int (length students)"
  by (simp add: take_of_def)

lemma take_of_le_space: "filled r + take_of b m students r \<le> max 0 (Capacity r - b)"
  by (simp add: take_of_def)

lemma take_of_le_half: "take_of b ''sparse'' students r \<le> max 0 (Capacity r - b) div 2"
  by (simp add: take_of_def)

lemma seat_in_room_cases:
  assumes "seat_in_room slot b m c students r = (students', r', recs)"
  obtains
    (skip) "\<not> 0 < take_of b m students r" "students' = students" "r' = r" "recs = []"
  | (seat) "0 < take_of b m students r"
      "students' = drop (nat (take_of b m students r)) students"
      "r' = r\<lparr>filled := filled r + take_of b m students r,
        assignments := (assignments r)
          (c \<mapsto> dict_get (assignments r) c [] @ take (nat (take_of b m students r)) students)\<rparr>"
      "recs = [\<lparr>alloc_Date = Date slot,
        alloc_IsoDate = (case IsoDate slot of None \<Rightarrow> '''' | Some d \<Rightarrow> d),
        alloc_Day = (case Day slot of None \<Rightarrow> '''' | Some d \<Rightarrow> d),
        alloc_Session = Session slot,
        alloc_Course = c,
        alloc_Room = Room r,
        alloc_Count = take_of b m students r,
        alloc_Students = take (nat (take_of b m students r)) students\<rparr>]"
proof (cases "0 < take_of b m students r")
  case True
  show ?thesis
    using seat_in_room_take[OF True, of slot c] assms True by (intro seat) simp_all
next
  case False
  show ?thesis
    using seat_in_room_skip[OF False, of slot c] assms False by (intro skip) simp_all
qed

lemma seat_in_room_static:
  assumes "seat_in_room slot b m c students r = (students', r', recs)"
  shows "Room r' = Room r" and "Capacity r' = Capacity r"
  using assms by (cases rule: seat_in_room_cases; simp)+

lemma seat_in_room_students:
  assumes "seat_in_room slot b m c students r = (students', r', recs)"
  shows "students = concat (map alloc_Students recs) @ students'"
  using assms by (cases rule: seat_in_room_cases) simp_all

lemma seat_in_room_recs:
  assumes "seat_in_room slot b m c students r = (students', r', recs)"
      and "a \<in> set recs"
  shows "alloc_Course a = c" and "alloc_Room a = Room r"
    and "alloc_Count a = int (length (alloc_Students a))" and "0 < alloc_Count a"
proof -
  show "alloc_Course a = c" "alloc_Room a = Room r" "0 < alloc_Count a"
    using assms by (cases rule: seat_in_room_cases; simp)+
  show "alloc_Count a = int (length (alloc_Students a))"
    using assms(1)
  proof (cases rule: seat_in_room_cases)
    case skip
    then show ?thesis using assms(2) by simp
  next
    case seat
    have "nat (take_of b m students r) \<le> length students"
      using take_of_le_length[of b m students r] by linarith
    then show ?thesis using seat assms(2) by (simp add: min_def)
  qed
qed

lemma seat_in_room_filled:
  assumes "seat_in_room slot b m c students r = (students', r', recs)"
  shows "filled r' = filled r + sum_list (map alloc_Count recs)"
  using assms by (cases rule: seat_in_room_cases) simp_all

lemma seat_in_room_bound:
  assumes "seat_in_room slot b m c students r = (students', r', recs)"
      and "filled r \<le> max 0 (Capacity r - b)"
  shows "filled r' \<le> max 0 (Capacity r' - b)"
  using assms(1)
proof (cases rule: seat_in_room_cases)
  case skip
  then show ?thesis using assms(2) by simp
next
  case seat
  then show ?thesis using take_of_le_space[of r b m students] by simp
qed

lemma seat_in_room_assignments:
  assumes "seat_in_room slot b m c students r = (students', r', recs)"
  shows "dict_get (assignments r') c [] = dict_get (assignments r) c [] @ concat (map alloc_Students recs)"
    and "c' \<noteq> c \<Longrightarrow> assignments r' c' = assignments r c'"
  using assms by (cases rule: seat_in_room_cases; simp add: dict_get_def)+

lemma seat_in_room_sparse:
  assumes "seat_in_room slot b ''sparse'' c students r = (students', r', recs)"
  shows "int (length (concat (map alloc_Students recs))) \<le> max 0 (Capacity r - b) div 2"
  using assms
proof (cases rule: seat_in_room_cases)
  case skip
  then show ?thesis by simp
next
  case seat
  have "int (length (take (nat (take_of b ''sparse'' students r)) students))
          \<le> take_of b ''sparse'' students r"
    using seat(1) by simp
  then show ?thesis using seat take_of_le_half[of b students r] by simp
qed

lemma seat_course_induct [consumes 1, case_names Nil Break Step]:
  assumes "seat_course slot b m c students rms = (left, rms', recs)"
    and "\<And>students. P students [] students [] []"
    and "\<And>room rest. P [] (room # rest) [] (room # rest) []"
    and "\<And>students room rest s1 room1 recs1 left rest1 recs2.
           students \<noteq> [] \<Longrightarrow>
           seat_in_room slot b m c students room = (s1, room1, recs1) \<Longrightarrow>
           seat_course slot b m c s1 rest = (left, rest1, recs2) \<Longrightarrow>
           P s1 rest left rest1 recs2 \<Longrightarrow>
           P students (room # rest) left (room1 # rest1) (recs1 @ recs2)"
  shows "P students rms left rms' recs"
  using assms(1)
proof (induction rms arbitrary: students left rms' recs)
  case Nil
  then show ?case using assms(2) by simp
next
  case (Cons room rest)
  show ?case
  proof (cases "students = []")
    case True
    then have "left = []" "rms' = room # rest" "recs = []"
      using Cons.prems by auto
    then show ?thesis using True assms(3) by simp
  next
    case False
    obtain s1 room1 recs1 where a: "seat_in_room slot b m c students room = (s1, room1, recs1)"
      by (cases "seat_in_room slot b m c students room") auto
    obtain left1 rest1 recs2 where b: "seat_course slot b m c s1 rest = (left1, rest1, recs2)"
      by (cases "seat_course slot b m c s1 rest") auto
    have c: "left = left1" "rms' = room1 # rest1" "recs = recs1 @ recs2"
      using Cons.prems False a b by simp_all
    show ?thesis
      unfolding c using False a b Cons.IH[OF b] by (rule assms(4))
  qed
qed

lemma seat_courses_induct [consumes 1, case_names Nil Skip Step]:
  assumes "seat_courses enr slot b m cs rms = (rms', recs)"
    and "\<And>rms. P [] rms rms []"
    and "\<And>c cs rms rms' recs.
           dict_get enr c [] = [] \<Longrightarrow>
           seat_courses enr slot b m cs rms = (rms', recs) \<Longrightarrow>
           P cs rms rms' recs \<Longrightarrow> P (c # cs) rms rms' recs"
    and "\<And>c cs rms left rms1 recs1 rms' recs2.
           dict_get enr c [] \<noteq> [] \<Longrightarrow>
           seat_course slot b m c (dict_get enr c []) rms = (left, rms1, recs1) \<Longrightarrow>
           seat_courses enr slot b m cs rms1 = (rms', recs2) \<Longrightarrow>
           P cs rms1 rms' recs2 \<Longrightarrow> P (c # cs) rms rms' (recs1 @ recs2)"
  shows "P cs rms rms' recs"
  using assms(1)
proof (induction cs arbitrary: rms rms' recs)
  case Nil
  then show ?case using assms(2) by simp
next
  case (Cons c cs)
  show ?case
  proof (cases "dict_get enr c [] = []")
    case True
    then have a: "seat_courses enr slot b m cs rms = (rms', recs)"
      using Cons.prems by simp
    show ?thesis using True a Cons.IH[OF a] by (rule assms(3))
  next
    case False
    obtain left rms1 recs1 where
      a: "seat_course slot b m c (dict_get enr c []) rms = (left, rms1, recs1)"
      by (cases "seat_course slot b m c (dict_get enr c []) rms") auto
    obtain rms2 recs2 where b: "seat_courses enr slot b m cs rms1 = (rms2, recs2)"
      by (cases "seat_courses enr slot b m cs rms1") auto
    have c: "rms' = rms2" "recs = recs1 @ recs2"
      using Cons.prems False a b by (simp_all add: Let_def)
    show ?thesis
      unfolding c using False a b Cons.IH[OF b] by (rule assms(4))
  qed
qed

section \<open>The loops over rooms and courses\<close>

lemma seat_course_static:
  assumes "seat_course slot b m c students rms = (left, rms', recs)"
  shows "map Room rms' = map Room rms \<and> map Capacity rms' = map Capacity rms"
  using assms
  by (induction rule: seat_course_induct) (simp_all add: seat_in_room_static)

lemma seat_course_students:
  assumes "seat_course slot b m c students rms = (left, rms', recs)"
  shows "students = concat (map alloc_Students recs) @ left"
  using assms
  by (induction rule: seat_course_induct) (simp_all add: seat_in_room_students)

lemma seat_course_recs:
  assumes "seat_course slot b m c students rms = (left, rms', recs)"
  shows "\<forall>a \<in> set recs. alloc_Course a = c \<and> alloc_Room a \<in> Room ` set rms
            \<and> alloc_Count a = int (length (alloc_Students a)) \<and> 0 < alloc_Count a"
  using assms
proof (induction rule: seat_course_induct)
  case (Step students room rest s1 room1 recs1 left rest1 recs2)
  show ?case using Step.IH seat_in_room_recs[OF Step.hyps(2)] by auto
qed simp_all

lemma seat_course_filled_in:
  assumes "seat_course slot b m c students rms = (left, rms', recs)"
  shows "filled_in n rms' = filled_in n rms + count_in_room n recs"
  using assms
proof (induction rule: seat_course_induct)
  case (Step students room rest s1 room1 recs1 left rest1 recs2)
  have a: "Room room1 = Room room" "filled room1 = filled room + sum_list (map alloc_Count recs1)"
    using seat_in_room_static[OF Step.hyps(2)] seat_in_room_filled[OF Step.hyps(2)] by simp_all
  have b: "\<forall>a \<in> set recs1. alloc_Room a = Room room"
    using seat_in_room_recs(2)[OF Step.hyps(2)] by simp
  have c: "count_in_room n recs1 = (if Room room = n then sum_list (map alloc_Count recs1) else 0)"
    using b unfolding count_in_room_def
    by (auto simp: filter_id_conv filter_empty_conv)
  show ?case using Step.IH a c by (simp add: filled_in_def count_in_room_def)
qed (simp_all add: filled_in_def count_in_room_def)

lemma seat_course_bound:
  assumes "seat_course slot b m c students rms = (left, rms', recs)"
    and "\<forall>r \<in> set rms. filled r \<le> max 0 (Capacity r - b)"
  shows "\<forall>r \<in> set rms'. filled r \<le> max 0 (Capacity r - b)"
  using assms
proof (induction rule: seat_course_induct)
  case (Step students room rest s1 room1 recs1 left rest1 recs2)
  show ?case using Step.IH Step.prems seat_in_room_bound[OF Step.hyps(2)] by simp
qed simp_all

lemma room_evolves_refl: "room_evolves b m cs r r"
  by (simp add: room_evolves_def)

lemma seat_in_room_evolves:
  assumes "seat_in_room slot b m c students r = (students', r', recs)"
  shows "room_evolves b m {c} r r'"
  unfolding room_evolves_def
  using seat_in_room_static[OF assms] seat_in_room_assignments[OF assms]
    seat_in_room_sparse[of slot b c students r students' r' recs] assms
  by auto

lemma seat_course_evolves:
  assumes "seat_course slot b m c students rms = (left, rms', recs)"
  shows "list_all2 (room_evolves b m {c}) rms rms'"
  using assms
proof (induction rule: seat_course_induct)
  case (Break room rest)
  show ?case by (simp add: room_evolves_refl list.rel_refl)
next
  case (Step students room rest s1 room1 recs1 left rest1 recs2)
  show ?case using Step.IH seat_in_room_evolves[OF Step.hyps(2)] by simp
qed simp

lemma seat_in_room_seated:
  assumes "seat_in_room slot b m c students r = (students', r', recs)"
  shows "int (seated_count r' c') = int (seated_count r c') + count_for c' (Room r) recs"
proof (cases "c' = c")
  case True
  have "count_for c (Room r) recs = sum_list (map alloc_Count recs)"
    using seat_in_room_recs(1,2)[OF assms] unfolding count_for_def
    by (simp add: filter_id_conv)
  moreover have "sum_list (map alloc_Count recs) = int (length (concat (map alloc_Students recs)))"
    using seat_in_room_recs(3)[OF assms]
    by (induction recs) (simp_all)
  ultimately show ?thesis
    using True seat_in_room_assignments(1)[OF assms] by (simp add: seated_count_def)
next
  case False
  have "count_for c' (Room r) recs = 0"
    using seat_in_room_recs(1)[OF assms] False unfolding count_for_def
    by (simp add: filter_empty_conv)
  then show ?thesis
    using False seat_in_room_assignments(2)[OF assms False]
    by (simp add: seated_count_def dict_get_def)
qed

lemma seat_course_seated:
  assumes "seat_course slot b m c students rms = (left, rms', recs)"
  shows "seated_in n c' rms' = seated_in n c' rms + count_for c' n recs"
  using assms
proof (induction rule: seat_course_induct)
  case (Step students room rest s1 room1 recs1 left rest1 recs2)
  have a: "Room room1 = Room room"
    using seat_in_room_static[OF Step.hyps(2)] by simp
  have b: "int (seated_count room1 c') = int (seated_count room c') + count_for c' (Room room) recs1"
    using Step.hyps(2) by (rule seat_in_room_seated)
  have c: "Room room \<noteq> n \<Longrightarrow> count_for c' n recs1 = 0"
    using seat_in_room_recs(2)[OF Step.hyps(2)] unfolding count_for_def
    by (simp add: filter_empty_conv)
  have d: "count_for c' n (recs1 @ recs2) = count_for c' n recs1 + count_for c' n recs2"
    by (simp add: count_for_def)
  show ?case
  proof (cases "Room room = n")
    case True
    then show ?thesis using Step.IH a b d by (simp add: seated_in_def)
  next
    case False
    then show ?thesis using Step.IH a c d by (simp add: seated_in_def)
  qed
qed (simp_all add: count_for_def)

lemma seat_courses_static:
  assumes "seat_courses enr slot b m cs rms = (rms', recs)"
  shows "map Room rms' = map Room rms \<and> map Capacity rms' = map Capacity rms"
  using assms
proof (induction rule: seat_courses_induct)
  case (Step c cs rms left rms1 recs1 rms' recs2)
  show ?case using Step.IH seat_course_static[OF Step.hyps(2)] by simp
qed simp_all

lemma seat_courses_recs:
  assumes "seat_courses enr slot b m cs rms = (rms', recs)"
  shows "\<forall>a \<in> set recs. alloc_Course a \<in> set cs \<and> dict_get enr (alloc_Course a) [] \<noteq> []
            \<and> alloc_Room a \<in> Room ` set rms
            \<and> alloc_Count a = int (length (alloc_Students a)) \<and> 0 < alloc_Count a"
  using assms
proof (induction rule: seat_courses_induct)
  case (Step c cs rms left rms1 recs1 rms' recs2)
  have "Room ` set rms1 = Room ` set rms"
    using seat_course_static[OF Step.hyps(2)] by (metis list.set_map)
  then show ?case using Step.IH Step.hyps(1) seat_course_recs[OF Step.hyps(2)] by auto
qed auto

lemma seat_courses_filled_in:
  assumes "seat_courses enr slot b m cs rms = (rms', recs)"
  shows "filled_in n rms' = filled_in n rms + count_in_room n recs"
  using assms
proof (induction rule: seat_courses_induct)
  case (Step c cs rms left rms1 recs1 rms' recs2)
  have "count_in_room n (recs1 @ recs2) = count_in_room n recs1 + count_in_room n recs2"
    by (simp add: count_in_room_def)
  then show ?case using Step.IH seat_course_filled_in[OF Step.hyps(2), of n] by simp
qed (simp_all add: count_in_room_def)

lemma seat_courses_seated:
  assumes "seat_courses enr slot b m cs rms = (rms', recs)"
  shows "seated_in n c' rms' = seated_in n c' rms + count_for c' n recs"
  using assms
proof (induction rule: seat_courses_induct)
  case (Step c cs rms left rms1 recs1 rms' recs2)
  have "count_for c' n (recs1 @ recs2) = count_for c' n recs1 + count_for c' n recs2"
    by (simp add: count_for_def)
  then show ?case using Step.IH seat_course_seated[OF Step.hyps(2), of n c'] by simp
qed (simp_all add: count_for_def)

lemma seat_courses_bound:
  assumes "seat_courses enr slot b m cs rms = (rms', recs)"
    and "\<forall>r \<in> set rms. filled r \<le> max 0 (Capacity r - b)"
  shows "\<forall>r \<in> set rms'. filled r \<le> max 0 (Capacity r - b)"
  using assms
proof (induction rule: seat_courses_induct)
  case (Step c cs rms left rms1 recs1 rms' recs2)
  show ?case using Step.IH seat_course_bound[OF Step.hyps(2) Step.prems] by simp
qed simp_all

lemma room_evolves_mono:
  assumes "room_evolves b m A r r'" and "A \<subseteq> B"
  shows "room_evolves b m B r r'"
  unfolding room_evolves_def
proof (intro conjI allI ballI impI)
  show "Room r' = Room r" "Capacity r' = Capacity r"
    using assms(1) by (simp_all add: room_evolves_def)
next
  fix c assume "c \<notin> B"
  then have "c \<notin> A" using assms(2) by auto
  then show "assignments r' c = assignments r c"
    using assms(1) by (simp add: room_evolves_def)
next
  fix c assume "c \<in> B"
  show "\<exists>batch. dict_get (assignments r') c [] = dict_get (assignments r) c [] @ batch \<and>
          (m = ''sparse'' \<longrightarrow> int (length batch) \<le> max 0 (Capacity r - b) div 2)"
  proof (cases "c \<in> A")
    case True
    then show ?thesis using assms(1) unfolding room_evolves_def by blast
  next
    case False
    then have "assignments r' c = assignments r c"
      using assms(1) by (simp add: room_evolves_def)
    then have "dict_get (assignments r') c [] = dict_get (assignments r) c [] @ []"
      by (simp add: dict_get_def)
    moreover have "int (length ([] :: string list)) \<le> max 0 (Capacity r - b) div 2"
      by simp
    ultimately show ?thesis by blast
  qed
qed

lemma room_evolves_trans:
  assumes "room_evolves b m {c} r r1" and "room_evolves b m B r1 r'" and "c \<notin> B"
  shows "room_evolves b m (insert c B) r r'"
  unfolding room_evolves_def
proof (intro conjI allI ballI impI)
  show "Room r' = Room r" "Capacity r' = Capacity r"
    using assms(1,2) by (simp_all add: room_evolves_def)
next
  fix c' assume "c' \<notin> insert c B"
  then show "assignments r' c' = assignments r c'"
    using assms(1,2) by (simp add: room_evolves_def)
next
  fix c' assume a: "c' \<in> insert c B"
  show "\<exists>batch. dict_get (assignments r') c' [] = dict_get (assignments r) c' [] @ batch \<and>
          (m = ''sparse'' \<longrightarrow> int (length batch) \<le> max 0 (Capacity r - b) div 2)"
  proof (cases "c' = c")
    case True
    have "assignments r' c = assignments r1 c"
      using assms(2,3) by (simp add: room_evolves_def)
    then have "dict_get (assignments r') c [] = dict_get (assignments r1) c []"
      by (simp add: dict_get_def)
    then show ?thesis using True assms(1) unfolding room_evolves_def by simp
  next
    case False
    then have b: "c' \<in> B" using a by simp
    have "assignments r1 c' = assignments r c'"
      using assms(1) False by (simp add: room_evolves_def)
    then have c: "dict_get (assignments r1) c' [] = dict_get (assignments r) c' []"
      by (simp add: dict_get_def)
    have d: "Capacity r1 = Capacity r" using assms(1) by (simp add: room_evolves_def)
    show ?thesis using assms(2) b c d unfolding room_evolves_def by metis
  qed
qed

lemma roster_fresh:
  assumes "distinct (concat (map f (c # cs)))" and "f c \<noteq> []"
  shows "c \<notin> set cs"
proof
  assume a: "c \<in> set cs"
  obtain x where x: "x \<in> set (f c)" using assms(2) by (cases "f c") auto
  have "x \<in> set (concat (map f cs))" using a x by auto
  then show False using assms(1) x by auto
qed

lemma seat_courses_evolves:
  assumes "seat_courses enr slot b m cs rms = (rms', recs)"
    and "distinct (concat (map (\<lambda>c. dict_get enr c []) cs))"
  shows "list_all2 (room_evolves b m (set cs)) rms rms'"
  using assms
proof (induction rule: seat_courses_induct)
  case (Nil rms)
  show ?case by (simp add: room_evolves_refl list.rel_refl)
next
  case (Skip c cs rms rms' recs)
  have "list_all2 (room_evolves b m (set cs)) rms rms'"
    using Skip.IH Skip.prems Skip.hyps(1) by simp
  then show ?case
    by (rule list_all2_mono) (auto intro: room_evolves_mono)
next
  case (Step c cs rms left rms1 recs1 rms' recs2)
  have fresh: "c \<notin> set cs"
    using roster_fresh[of "\<lambda>c. dict_get enr c []" c cs] Step.prems Step.hyps(1) by simp
  have a: "list_all2 (room_evolves b m {c}) rms rms1"
    using Step.hyps(2) by (rule seat_course_evolves)
  have b: "list_all2 (room_evolves b m (set cs)) rms1 rms'"
    using Step.IH Step.prems by simp
  have "list_all2 (room_evolves b m (insert c (set cs))) rms rms'"
    using _ a b
  proof (rule list_all2_trans)
    fix r r1 r'
    assume "room_evolves b m {c} r r1" "room_evolves b m (set cs) r1 r'"
    then show "room_evolves b m (insert c (set cs)) r r'"
      using fresh by (rule room_evolves_trans)
  qed
  then show ?case by simp
qed

lemma students_of_course_append:
  "students_of_course c (xs @ ys) = students_of_course c xs @ students_of_course c ys"
  by (simp add: students_of_course_def)

lemma seat_courses_prefix:
  assumes "seat_courses enr slot b m cs rms = (rms', recs)"
    and "distinct (concat (map (\<lambda>c. dict_get enr c []) cs))"
  shows "prefix (students_of_course c recs) (dict_get enr c [])"
  using assms
proof (induction rule: seat_courses_induct)
  case (Nil rms)
  show ?case by (simp add: students_of_course_def)
next
  case (Skip c0 cs rms rms' recs)
  then show ?case by simp
next
  case (Step c0 cs rms left rms1 recs1 rms' recs2)
  have fresh: "c0 \<notin> set cs"
    using roster_fresh[of "\<lambda>c. dict_get enr c []" c0 cs] Step.prems Step.hyps(1) by simp
  have ih: "prefix (students_of_course c recs2) (dict_get enr c [])"
    using Step.IH Step.prems by simp
  have r1: "\<forall>a \<in> set recs1. alloc_Course a = c0"
    using seat_course_recs[OF Step.hyps(2)] by simp
  have r2: "\<forall>a \<in> set recs2. alloc_Course a \<in> set cs"
    using seat_courses_recs[OF Step.hyps(3)] by simp
  show ?case
  proof (cases "c = c0")
    case True
    have "students_of_course c recs1 = concat (map alloc_Students recs1)"
      using r1 True by (simp add: students_of_course_def filter_id_conv)
    moreover have "students_of_course c recs2 = []"
      using r2 fresh True by (auto simp: students_of_course_def filter_empty_conv)
    ultimately show ?thesis
      using seat_course_students[OF Step.hyps(2)] True
      by (simp add: students_of_course_append prefix_def)
  next
    case False
    have "students_of_course c recs1 = []"
      using r1 False by (auto simp: students_of_course_def filter_empty_conv)
    then show ?thesis using ih by (simp add: students_of_course_append)
  qed
qed

lemma distinct_concat_mset:
  assumes "mset xs = mset ys"
  shows "distinct (concat (map f xs)) \<longleftrightarrow> distinct (concat (map f ys))"
proof -
  have "\<And>zs. mset (concat (map f zs)) = sum_mset (image_mset (\<lambda>x. mset (f x)) (mset zs))"
    by (simp add: mset_concat comp_def flip: sum_mset_sum_list)
  then have "mset (concat (map f xs)) = mset (concat (map f ys))"
    using assms by simp
  then show ?thesis by (rule mset_eq_imp_distinct_iff)
qed

section \<open>Evaluating the examples\<close>

text \<open>The definitions the simplifier unfolds to run the engine on the examples.\<close>

lemmas ex_simps = allocate_session_def check_clashes_def courses_sorted_def sorted_reverse_def
  dict_get_def example_system_def example_slot_def clash_slot_def empty_slot_def example_enrollments_def seat_in_room_def Let_def
  reset_room_def room_stat_of_def new_allocations_def new_room_stats_def
  same_name_system_def repeated_course_slot_def

section \<open>The whole call of \<^verbatim>\<open>allocate_session\<close>\<close>

lemma check_clashes_rooms:
  "fst (check_clashes (self\<lparr>rooms := rms\<rparr>) cs) = fst (check_clashes self cs)"
  by (simp add: check_clashes_def)

lemma allocate_session_cases [case_names clash clean]:
  obtains
    (clash) "fst (check_clashes self (Courses slot))"
      "allocate_session self slot b m = self\<lparr>rooms := map reset_room (rooms self)\<rparr>"
  | (clean) rms recs where "\<not> fst (check_clashes self (Courses slot))"
      "seat_courses (course_enrollments self) slot b m
         (courses_sorted (course_enrollments self) (Courses slot))
         (map reset_room (rooms self)) = (rms, recs)"
      "allocate_session self slot b m =
         self\<lparr>rooms := rms, allocations := allocations self @ recs,
              room_stats := room_stats self @ map (room_stat_of slot) rms\<rparr>"
proof (cases "fst (check_clashes self (Courses slot))")
  case True
  then have "check_courses (course_enrollments self) Map.empty (Courses slot)"
    by (simp add: check_clashes_def)
  then have "allocate_session self slot b m = self\<lparr>rooms := map reset_room (rooms self)\<rparr>"
    by (simp add: allocate_session_def check_clashes_def Let_def)
  with True show ?thesis by (rule clash)
next
  case False
  then have a: "\<not> check_courses (course_enrollments self) Map.empty (Courses slot)"
    by (simp add: check_clashes_def)
  obtain rms recs where b: "seat_courses (course_enrollments self) slot b m
         (courses_sorted (course_enrollments self) (Courses slot))
         (map reset_room (rooms self)) = (rms, recs)"
    by (cases "seat_courses (course_enrollments self) slot b m
         (courses_sorted (course_enrollments self) (Courses slot))
         (map reset_room (rooms self))") auto
  have "allocate_session self slot b m =
         self\<lparr>rooms := rms, allocations := allocations self @ recs,
              room_stats := room_stats self @ map (room_stat_of slot) rms\<rparr>"
    using a b by (simp add: allocate_session_def check_clashes_def Let_def)
  with False b show ?thesis by (rule clean)
qed

lemma filled_in_reset: "filled_in n (map reset_room rms) = 0"
  by (induction rms) (simp_all add: filled_in_def reset_room_def)

lemma seated_in_reset: "seated_in n c (map reset_room rms) = 0"
  by (induction rms) (simp_all add: seated_in_def reset_room_def seated_count_def dict_get_def)

lemma reset_static:
  "map Room (map reset_room rms) = map Room rms" "map Capacity (map reset_room rms) = map Capacity rms"
  by (simp_all add: reset_room_def)

lemma filled_in_distinct:
  "distinct (map Room rms) \<Longrightarrow> r \<in> set rms \<Longrightarrow> filled_in (Room r) rms = filled r"
proof (induction rms)
  case Nil
  then show ?case by simp
next
  case (Cons x rms)
  show ?case
  proof (cases "r = x")
    case True
    have "Room x \<notin> Room ` set rms" using Cons.prems(1) by simp
    then have "\<forall>y \<in> set rms. Room y \<noteq> Room x" by (metis imageI)
    then have "filter (\<lambda>y. Room y = Room x) rms = []"
      by (simp add: filter_empty_conv)
    then show ?thesis using True by (simp add: filled_in_def)
  next
    case False
    then have a: "r \<in> set rms" using Cons.prems(2) by simp
    then have "Room x \<noteq> Room r" using Cons.prems(1) by auto
    then show ?thesis using Cons.IH a Cons.prems(1) by (simp add: filled_in_def)
  qed
qed

lemma seated_in_distinct:
  "distinct (map Room rms) \<Longrightarrow> r \<in> set rms \<Longrightarrow> seated_in (Room r) c rms = int (seated_count r c)"
proof (induction rms)
  case Nil
  then show ?case by simp
next
  case (Cons x rms)
  show ?case
  proof (cases "r = x")
    case True
    have "Room x \<notin> Room ` set rms" using Cons.prems(1) by simp
    then have "\<forall>y \<in> set rms. Room y \<noteq> Room x" by (metis imageI)
    then have "filter (\<lambda>y. Room y = Room x) rms = []"
      by (simp add: filter_empty_conv)
    then show ?thesis using True by (simp add: seated_in_def)
  next
    case False
    then have a: "r \<in> set rms" using Cons.prems(2) by simp
    then have "Room x \<noteq> Room r" using Cons.prems(1) by auto
    then show ?thesis using Cons.IH a Cons.prems(1) by (simp add: seated_in_def)
  qed
qed

lemma room_correspondence:
  assumes "map Room rms' = map Room rms" and "map Capacity rms' = map Capacity rms"
    and "r \<in> set rms"
  shows "\<exists>r' \<in> set rms'. Room r' = Room r \<and> Capacity r' = Capacity r"
proof -
  obtain i where i: "i < length rms" "rms ! i = r"
    using assms(3) by (auto simp: in_set_conv_nth)
  have l: "length rms' = length rms" using assms(1) by (rule map_eq_imp_length_eq)
  have "Room (rms' ! i) = Room (rms ! i)"
    using assms(1) i(1) l by (metis nth_map)
  moreover have "Capacity (rms' ! i) = Capacity (rms ! i)"
    using assms(2) i(1) l by (metis nth_map)
  moreover have "rms' ! i \<in> set rms'" using i(1) l by simp
  ultimately show ?thesis using i(2) by auto
qed

lemma allocate_session_bound:
  "\<forall>r \<in> set (rooms (allocate_session self slot b m)). filled r \<le> max 0 (Capacity r - b)"
proof (cases rule: allocate_session_cases[of self slot b m])
  case clash
  then show ?thesis by (simp add: reset_room_def)
next
  case (clean rms recs)
  have "\<forall>r \<in> set (map reset_room (rooms self)). filled r \<le> max 0 (Capacity r - b)"
    by (simp add: reset_room_def)
  then have "\<forall>r \<in> set rms. filled r \<le> max 0 (Capacity r - b)"
    using clean(2) by (rule seat_courses_bound[rotated])
  then show ?thesis using clean(3) by simp
qed

lemma courses_sorted_mset: "mset (courses_sorted enr cs) = mset cs"
  by (simp add: courses_sorted_def sorted_reverse_def)

lemma courses_sorted_distinct:
  "distinct (concat (map (\<lambda>c. dict_get enr c []) (courses_sorted enr cs)))
     \<longleftrightarrow> distinct (concat (map (\<lambda>c. dict_get enr c []) cs))"
  using courses_sorted_mset by (rule distinct_concat_mset)

section \<open>Capacity, buffer and clash skip\<close>

lemma new_allocations_append: "new_allocations self (self\<lparr>rooms := rms, allocations := allocations self @ recs,
              room_stats := sts\<rparr>) = recs"
  by (simp add: new_allocations_def)

lemma new_allocations_same: "new_allocations self (self\<lparr>rooms := rms\<rparr>) = []"
  by (simp add: new_allocations_def)

text \<open>
  C1, as amended. Capacity invariant: for a call of \<^verbatim>\<open>allocate_session\<close> with a
  non-negative buffer on a pool whose rooms have distinct names, and for every
  room of the pool with a non-negative capacity, the sum of \<^verbatim>\<open>Count\<close> over the
  allocation records the call appends under the name of that room is at most the
  room's \<^verbatim>\<open>Capacity\<close>. A record identifies its room by name only, so when two
  rooms carry the same name their records add up under that name and the sum can
  exceed the capacity of either room.
\<close>

theorem capacity_invariant:
  assumes "0 \<le> buffer" and "distinct (map Room (rooms self))"
    and "r \<in> set (rooms self)" and "0 \<le> Capacity r"
  shows "count_in_room (Room r) (new_allocations self (allocate_session self slot buffer mode))
           \<le> Capacity r"
proof (cases rule: allocate_session_cases[of self slot buffer mode])
  case clash
  then show ?thesis using assms(4) by (simp add: new_allocations_same count_in_room_def)
next
  case (clean rms recs)
  have st: "map Room rms = map Room (rooms self)" "map Capacity rms = map Capacity (rooms self)"
    using seat_courses_static[OF clean(2)] unfolding reset_static by simp_all
  obtain r' where r': "r' \<in> set rms" "Room r' = Room r" "Capacity r' = Capacity r"
    using room_correspondence[OF st assms(3)] by auto
  have "filled_in (Room r) rms = count_in_room (Room r) recs"
    using seat_courses_filled_in[OF clean(2), of "Room r"] by (simp add: filled_in_reset)
  moreover have "filled_in (Room r') rms = filled r'"
    using assms(2) st(1) r'(1) by (simp add: filled_in_distinct)
  moreover have "filled r' \<le> max 0 (Capacity r' - buffer)"
    using allocate_session_bound[of self slot buffer mode] clean(3) r'(1) by simp
  ultimately have "count_in_room (Room r) recs \<le> max 0 (Capacity r - buffer)"
    using r'(2,3) by simp
  then show ?thesis using clean(3) assms(1,4) by (simp add: new_allocations_append)
qed

theorem capacity_invariant_witness:
  "(0::int) \<le> 1 \<and> distinct (map Room (rooms example_system))
   \<and> hd (rooms example_system) \<in> set (rooms example_system)
   \<and> 0 \<le> Capacity (hd (rooms example_system))
   \<and> count_in_room (Room (hd (rooms example_system)))
         (new_allocations example_system (allocate_session example_system example_slot 1 ''dense''))
       \<le> Capacity (hd (rooms example_system))
   \<and> count_in_room (Room (hd (rooms example_system)))
         (new_allocations example_system (allocate_session example_system example_slot 1 ''dense'')) = 5"
proof -
  have a: "(0::int) \<le> 1" by simp
  have b: "distinct (map Room (rooms example_system))" by (simp add: example_system_def)
  have c: "hd (rooms example_system) \<in> set (rooms example_system)" by (simp add: example_system_def)
  have d: "0 \<le> Capacity (hd (rooms example_system))" by (simp add: example_system_def)
  have e: "count_in_room (Room (hd (rooms example_system)))
         (new_allocations example_system (allocate_session example_system example_slot 1 ''dense''))
       \<le> Capacity (hd (rooms example_system))"
    using a b c d by (rule capacity_invariant)
  have f: "count_in_room (Room (hd (rooms example_system)))
         (new_allocations example_system (allocate_session example_system example_slot 1 ''dense'')) = 5"
    by (simp add: ex_simps count_in_room_def)
  show ?thesis using a b c d e f by (intro conjI)
qed

theorem capacity_invariant_counterexample:
  "(0::int) \<le> 0
   \<and> hd (rooms same_name_system) \<in> set (rooms same_name_system)
   \<and> Capacity (hd (rooms same_name_system)) = 4
   \<and> count_in_room (Room (hd (rooms same_name_system)))
         (new_allocations same_name_system
            (allocate_session same_name_system example_slot 0 ''dense'')) = 7
   \<and> \<not> count_in_room (Room (hd (rooms same_name_system)))
         (new_allocations same_name_system
            (allocate_session same_name_system example_slot 0 ''dense''))
       \<le> Capacity (hd (rooms same_name_system))"
  by (simp add: ex_simps count_in_room_def)

text \<open>
  C5. Buffer respected: after \<^verbatim>\<open>allocate_session\<close> has finished a slot, every room
  whose \<^verbatim>\<open>Capacity\<close> is at least the buffer has \<^verbatim>\<open>filled\<close> at most
  \<^verbatim>\<open>Capacity - buffer\<close>.
\<close>

theorem buffer_respected:
  assumes "r \<in> set (rooms (allocate_session self slot buffer mode))" and "buffer \<le> Capacity r"
  shows "filled r \<le> Capacity r - buffer"
  using allocate_session_bound[of self slot buffer mode] assms by auto

theorem buffer_respected_witness:
  "hd (rooms (allocate_session example_system example_slot 1 ''dense''))
      \<in> set (rooms (allocate_session example_system example_slot 1 ''dense''))
   \<and> 1 \<le> Capacity (hd (rooms (allocate_session example_system example_slot 1 ''dense'')))
   \<and> filled (hd (rooms (allocate_session example_system example_slot 1 ''dense'')))
       \<le> Capacity (hd (rooms (allocate_session example_system example_slot 1 ''dense''))) - 1"
proof -
  have a: "hd (rooms (allocate_session example_system example_slot 1 ''dense''))
      \<in> set (rooms (allocate_session example_system example_slot 1 ''dense''))"
    by (simp add: ex_simps)
  have b: "1 \<le> Capacity (hd (rooms (allocate_session example_system example_slot 1 ''dense'')))"
    by (simp add: ex_simps)
  show ?thesis using a b buffer_respected[OF a b] by simp
qed

text \<open>
  C3. Clash skip at the level of the engine: when the clash detector flags the
  course list of the slot, \<^verbatim>\<open>allocate_session\<close> only resets the rooms. Afterwards
  every room has \<^verbatim>\<open>filled = 0\<close> and an empty \<^verbatim>\<open>assignments\<close> dictionary, the
  allocation log is unchanged and no room statistic has been appended.
\<close>

theorem clash_skip_engine:
  assumes "fst (check_clashes self (Courses slot))"
  shows "rooms (allocate_session self slot buffer mode) = map reset_room (rooms self)
     \<and> (\<forall>r \<in> set (rooms (allocate_session self slot buffer mode)).
           filled r = 0 \<and> assignments r = Map.empty)
     \<and> allocations (allocate_session self slot buffer mode) = allocations self
     \<and> room_stats (allocate_session self slot buffer mode) = room_stats self"
proof (cases rule: allocate_session_cases[of self slot buffer mode])
  case clash
  then show ?thesis by (simp add: reset_room_def)
next
  case (clean rms recs)
  then show ?thesis using assms by simp
qed

theorem clash_skip_engine_witness:
  "fst (check_clashes example_system (Courses clash_slot))
   \<and> map filled (rooms (allocate_session example_system clash_slot 1 ''dense'')) = [0, 0]
   \<and> allocations (allocate_session example_system clash_slot 1 ''dense'') = allocations example_system
   \<and> room_stats (allocate_session example_system clash_slot 1 ''dense'') = room_stats example_system"
proof -
  have a: "fst (check_clashes example_system (Courses clash_slot))"
    by (simp add: ex_simps)
  show ?thesis
    using a clash_skip_engine[OF a, of 1 "''dense''"]
    by (simp add: example_system_def reset_room_def)
qed

section \<open>Mode fallback and the empty slot\<close>

lemma seat_in_room_mode:
  assumes "mode \<noteq> ''sparse''"
  shows "seat_in_room slot b mode c students r = seat_in_room slot b ''dense'' c students r"
  using assms by (simp add: seat_in_room_def)

lemma seat_course_mode:
  assumes "mode \<noteq> ''sparse''"
  shows "seat_course slot b mode c students rms = seat_course slot b ''dense'' c students rms"
  by (induction rms arbitrary: students) (simp_all add: seat_in_room_mode[OF assms])

lemma seat_courses_mode:
  assumes "mode \<noteq> ''sparse''"
  shows "seat_courses enr slot b mode cs rms = seat_courses enr slot b ''dense'' cs rms"
  by (induction cs arbitrary: rms) (simp_all add: seat_course_mode[OF assms] Let_def)

text \<open>
  C9. Every mode value other than \<^verbatim>\<open>"sparse"\<close> makes \<^verbatim>\<open>allocate_session\<close> return
  the same object (rooms, allocation log and room statistics) as the mode
  \<^verbatim>\<open>"dense"\<close>; the call does not fail.
\<close>

theorem unknown_mode_fallback:
  assumes "mode \<noteq> ''sparse''"
  shows "allocate_session self slot buffer mode = allocate_session self slot buffer ''dense''"
proof -
  have e: "seat_courses enr slot buffer mode = seat_courses enr slot buffer ''dense''" for enr
    by (intro ext) (rule seat_courses_mode[OF assms])
  show ?thesis unfolding allocate_session_def e by (rule refl)
qed

theorem unknown_mode_fallback_witness:
  "''compact'' \<noteq> ''sparse''
   \<and> allocate_session example_system example_slot 1 ''compact''
       = allocate_session example_system example_slot 1 ''dense''"
proof -
  have a: "''compact'' \<noteq> ''sparse''" by simp
  show ?thesis using a unknown_mode_fallback[OF a, of example_system example_slot 1] by blast
qed

text \<open>
  C7, as amended. A call of \<^verbatim>\<open>allocate_session\<close> on a slot with an empty course list
  appends nothing to the allocation log, but it is not a no-op: it resets every
  room and appends one room statistic per room, with \<^verbatim>\<open>Allocated = 0\<close> and
  \<^verbatim>\<open>Free = Capacity\<close>.
\<close>

theorem empty_slot_effect:
  assumes "Courses slot = []"
  shows "allocations (allocate_session self slot buffer mode) = allocations self
     \<and> rooms (allocate_session self slot buffer mode) = map reset_room (rooms self)
     \<and> room_stats (allocate_session self slot buffer mode) =
         room_stats self @
         map (\<lambda>r. \<lparr>stat_Date = Date slot, stat_Session = Session slot, stat_Room = Room r,
                    Allocated = 0, Free = Capacity r\<rparr>) (rooms self)"
  using assms
  by (simp add: allocate_session_def check_clashes_def courses_sorted_def sorted_reverse_def
      Let_def room_stat_of_def reset_room_def comp_def)

theorem empty_slot_effect_witness:
  "Courses empty_slot = []
   \<and> allocations (allocate_session example_system empty_slot 1 ''dense'') = []
   \<and> map filled (rooms (allocate_session example_system empty_slot 1 ''dense'')) = [0, 0]
   \<and> map (\<lambda>s. (stat_Room s, Allocated s, Free s))
         (room_stats (allocate_session example_system empty_slot 1 ''dense''))
       = [(''R1'', 0, 6), (''R2'', 0, 4)]"
proof -
  have a: "Courses empty_slot = []" by (simp add: empty_slot_def)
  show ?thesis
    using a empty_slot_effect[OF a, of example_system 1 "''dense''"]
    by (simp add: example_system_def reset_room_def)
qed

theorem empty_slot_noop_counterexample:
  "Courses empty_slot = []
   \<and> length (new_room_stats example_system
         (allocate_session example_system empty_slot 1 ''dense'')) = 2
   \<and> allocate_session example_system empty_slot 1 ''dense'' \<noteq> example_system"
proof -
  have a: "Courses empty_slot = []" by (simp add: empty_slot_def)
  have b: "length (new_room_stats example_system
         (allocate_session example_system empty_slot 1 ''dense'')) = 2"
    by (simp add: ex_simps)
  have "room_stats (allocate_session example_system empty_slot 1 ''dense'') \<noteq> room_stats example_system"
    by (simp add: ex_simps)
  then have c: "allocate_session example_system empty_slot 1 ''dense'' \<noteq> example_system"
    by auto
  show ?thesis using a b c by simp
qed

section \<open>Clash skip as the reports see it\<close>

lemma new_room_stats_append:
  "new_room_stats self (self\<lparr>rooms := rms, allocations := als,
              room_stats := room_stats self @ sts\<rparr>) = sts"
  by (simp add: new_room_stats_def)

lemma new_room_stats_same: "new_room_stats self (self\<lparr>rooms := rms\<rparr>) = []"
  by (simp add: new_room_stats_def)

lemma shares_candidate_clash:
  "shares_candidate (course_enrollments self) cs \<Longrightarrow> fst (check_clashes self cs)"
  using shares_not_distinct[of "course_enrollments self" cs]
  by (simp add: check_clashes_distinct)

text \<open>
  C2, as amended. When two courses of the slot share a candidate,
  \<^verbatim>\<open>allocate_session\<close> appends no allocation record and no room statistic: both logs
  stay as they were, so no room statistic of the slot shows a non-zero
  \<^verbatim>\<open>Allocated\<close>. One room statistic per room, used or not, is appended exactly for
  the slots in which no clash is detected.
\<close>

theorem clash_skip_report:
  "(shares_candidate (course_enrollments self) (Courses slot) \<longrightarrow>
      allocations (allocate_session self slot buffer mode) = allocations self
      \<and> room_stats (allocate_session self slot buffer mode) = room_stats self
      \<and> new_allocations self (allocate_session self slot buffer mode) = []
      \<and> new_room_stats self (allocate_session self slot buffer mode) = [])
   \<and> (\<not> fst (check_clashes self (Courses slot)) \<longrightarrow>
      map stat_Room (new_room_stats self (allocate_session self slot buffer mode))
        = map Room (rooms self))"
proof (cases rule: allocate_session_cases[of self slot buffer mode])
  case clash
  then show ?thesis by (simp add: new_allocations_same new_room_stats_same)
next
  case (clean rms recs)
  have a: "\<not> shares_candidate (course_enrollments self) (Courses slot)"
    using clean(1) shares_candidate_clash by blast
  have "map Room rms = map Room (rooms self)"
    using seat_courses_static[OF clean(2)] unfolding reset_static by simp
  then have "map stat_Room (map (room_stat_of slot) rms) = map Room (rooms self)"
    by (simp add: room_stat_of_def comp_def)
  then show ?thesis using a clean(3) by (simp add: new_room_stats_append)
qed

theorem clash_skip_report_witness:
  "shares_candidate (course_enrollments example_system) (Courses clash_slot)
   \<and> new_allocations example_system (allocate_session example_system clash_slot 1 ''dense'') = []
   \<and> new_room_stats example_system (allocate_session example_system clash_slot 1 ''dense'') = []
   \<and> \<not> fst (check_clashes example_system (Courses example_slot))
   \<and> map stat_Room (new_room_stats example_system
         (allocate_session example_system example_slot 1 ''dense'')) = [''R1'', ''R2'']"
proof -
  have a: "shares_candidate (course_enrollments example_system) (Courses clash_slot)"
    by (simp add: shares_candidate_def ex_simps) blast
  have b: "\<not> fst (check_clashes example_system (Courses example_slot))"
    by (simp add: ex_simps)
  have c: "map Room (rooms example_system) = [''R1'', ''R2'']"
    by (simp add: example_system_def)
  show ?thesis
    using a b c clash_skip_report[of example_system clash_slot 1 "''dense''"]
      clash_skip_report[of example_system example_slot 1 "''dense''"]
    by simp
qed

theorem clash_skip_report_counterexample:
  "shares_candidate (course_enrollments example_system) (Courses clash_slot)
   \<and> map stat_Room (new_room_stats example_system
         (allocate_session example_system clash_slot 1 ''dense''))
       \<noteq> map Room (rooms example_system)"
proof -
  have a: "shares_candidate (course_enrollments example_system) (Courses clash_slot)"
    by (simp add: shares_candidate_def ex_simps) blast
  have b: "new_room_stats example_system
         (allocate_session example_system clash_slot 1 ''dense'') = []"
    by (simp add: ex_simps)
  have c: "map Room (rooms example_system) = [''R1'', ''R2'']"
    by (simp add: example_system_def)
  show ?thesis using a b c by simp
qed

section \<open>The contract of the clash detector\<close>

text \<open>
  What the detector computes: it returns true exactly when the rosters of the
  listed courses, concatenated in list order, contain some roll more than once.
  When no course is listed twice and no roster repeats a roll, this is exactly
  when two different courses of the slot share a candidate. The method leaves the
  object as it found it.
\<close>

lemma check_clashes_characterisation:
  "fst (check_clashes self cs) =
     (\<not> distinct (concat (map (\<lambda>c. dict_get (course_enrollments self) c []) cs)))
   \<and> (distinct cs \<and> (\<forall>c \<in> set cs. distinct (dict_get (course_enrollments self) c [])) \<longrightarrow>
        fst (check_clashes self cs) = shares_candidate (course_enrollments self) cs)
   \<and> snd (check_clashes self cs) = self"
proof (intro conjI impI)
  show "fst (check_clashes self cs) =
     (\<not> distinct (concat (map (\<lambda>c. dict_get (course_enrollments self) c []) cs)))"
    by (rule check_clashes_distinct)
next
  assume "distinct cs \<and> (\<forall>c \<in> set cs. distinct (dict_get (course_enrollments self) c []))"
  then show "fst (check_clashes self cs) = shares_candidate (course_enrollments self) cs"
    using shares_candidate_iff[of cs "course_enrollments self"]
    by (simp add: check_clashes_distinct)
next
  show "snd (check_clashes self cs) = self"
    by (simp add: check_clashes_def)
qed

text \<open>
  C6. The clash detector is to return true exactly when some candidate appears in
  more than one course of the slot. The code records the course that claimed a
  roll but never compares it, so it also returns true when one course brings the
  same roll twice: for a slot that lists course B twice, and for a roster that
  lists roll r1 twice, it reports a clash although no two different courses share
  a candidate, and \<^verbatim>\<open>allocate_session\<close> then skips the whole slot.
\<close>

theorem check_clashes_false_clash:
  "fst (check_clashes example_system (Courses repeated_course_slot))
   \<and> \<not> shares_candidate (course_enrollments example_system) (Courses repeated_course_slot)
   \<and> allocations (allocate_session example_system repeated_course_slot 1 ''dense'') = []
   \<and> room_stats (allocate_session example_system repeated_course_slot 1 ''dense'') = []
   \<and> fst (check_clashes duplicate_roll_system [''A''])
   \<and> \<not> shares_candidate (course_enrollments duplicate_roll_system) [''A'']"
  by (simp add: shares_candidate_def duplicate_roll_system_def ex_simps)

section \<open>The sparse half limit\<close>

lemma list_all2_in_set2:
  "list_all2 P xs ys \<Longrightarrow> y \<in> set ys \<Longrightarrow> \<exists>x \<in> set xs. P x y"
  by (induction rule: list_all2_induct) auto

lemma reset_room_member:
  "r \<in> set (map reset_room rms) \<Longrightarrow> filled r = 0 \<and> assignments r = Map.empty"
  by (auto simp: reset_room_def)

lemma half_nonneg: "0 \<le> max 0 (x::int) div 2"
  by simp

lemma allocate_session_half:
  assumes "r \<in> set (rooms (allocate_session self slot b ''sparse''))"
  shows "int (seated_count r c) \<le> max 0 (Capacity r - b) div 2"
proof (cases rule: allocate_session_cases[of self slot b "''sparse''"])
  case clash
  then have "r \<in> set (map reset_room (rooms self))" using assms by simp
  then have "assignments r = Map.empty" using reset_room_member[of r "rooms self"] by simp
  then have "seated_count r c = 0" by (simp add: seated_count_def dict_get_def)
  then show ?thesis using half_nonneg[of "Capacity r - b"] by simp
next
  case (clean rms recs)
  let ?enr = "course_enrollments self"
  let ?cs = "courses_sorted ?enr (Courses slot)"
  have "distinct (concat (map (\<lambda>c. dict_get ?enr c []) (Courses slot)))"
    using clean(1) by (simp add: check_clashes_distinct)
  then have "distinct (concat (map (\<lambda>c. dict_get ?enr c []) ?cs))"
    by (simp add: courses_sorted_distinct)
  then have "list_all2 (room_evolves b ''sparse'' (set ?cs)) (map reset_room (rooms self)) rms"
    using clean(2) by (rule seat_courses_evolves[rotated])
  moreover have "r \<in> set rms" using assms clean(3) by simp
  ultimately have "\<exists>r0 \<in> set (map reset_room (rooms self)).
      room_evolves b ''sparse'' (set ?cs) r0 r"
    by (rule list_all2_in_set2)
  then obtain r0 where r0: "r0 \<in> set (map reset_room (rooms self))"
      "room_evolves b ''sparse'' (set ?cs) r0 r"
    by (elim bexE)
  have e: "assignments r0 = Map.empty" using reset_room_member[OF r0(1)] by (elim conjE)
  have cap: "Capacity r = Capacity r0" using r0(2) unfolding room_evolves_def by (elim conjE)
  show ?thesis
  proof (cases "c \<in> set ?cs")
    case True
    have "\<forall>c \<in> set ?cs. \<exists>batch.
        dict_get (assignments r) c [] = dict_get (assignments r0) c [] @ batch \<and>
        (''sparse'' = ''sparse'' \<longrightarrow> int (length batch) \<le> max 0 (Capacity r0 - b) div 2)"
      using r0(2) unfolding room_evolves_def by (elim conjE)
    then obtain batch where
      "dict_get (assignments r) c [] = dict_get (assignments r0) c [] @ batch"
      "int (length batch) \<le> max 0 (Capacity r0 - b) div 2"
      using True by blast
    then show ?thesis using e cap by (simp add: seated_count_def dict_get_def)
  next
    case False
    have "\<forall>c. c \<notin> set ?cs \<longrightarrow> assignments r c = assignments r0 c"
      using r0(2) unfolding room_evolves_def by (elim conjE)
    then have "assignments r c = assignments r0 c"
      using False by blast
    then have "seated_count r c = 0" using e by (simp add: seated_count_def dict_get_def)
    then show ?thesis using half_nonneg[of "Capacity r - b"] by simp
  qed
qed

lemma allocate_session_count_for:
  assumes "r \<in> set (rooms (allocate_session self slot b m))"
    and "distinct (map Room (rooms self))"
  shows "count_for c (Room r) (new_allocations self (allocate_session self slot b m))
           = int (seated_count r c)"
proof (cases rule: allocate_session_cases[of self slot b m])
  case clash
  then have "r \<in> set (map reset_room (rooms self))" using assms(1) by simp
  then have "assignments r = Map.empty" using reset_room_member[of r "rooms self"] by simp
  then have "seated_count r c = 0" by (simp add: seated_count_def dict_get_def)
  then show ?thesis using clash by (simp add: new_allocations_same count_for_def)
next
  case (clean rms recs)
  have r: "r \<in> set rms" using assms(1) clean(3) by simp
  have "map Room rms = map Room (rooms self)"
    using seat_courses_static[OF clean(2)] unfolding reset_static by simp
  then have "distinct (map Room rms)" using assms(2) by simp
  then have "seated_in (Room r) c rms = int (seated_count r c)"
    using r by (rule seated_in_distinct)
  moreover have "seated_in (Room r) c rms = count_for c (Room r) recs"
    using seat_courses_seated[OF clean(2), of "Room r" c] by (simp add: seated_in_reset)
  ultimately show ?thesis using clean(3) by (simp add: new_allocations_append)
qed

text \<open>
  C4, as amended. In sparse mode with a buffer \<open>b \<ge> 0\<close>, for every course and every
  room, the number of candidates of the course seated in the room within the slot
  (the length of \<^verbatim>\<open>room['assignments'][course]\<close>, and 0 without an entry) does
  not exceed half the effective capacity, \<open>\<lfloor>max(0, Capacity - b) / 2\<rfloor>\<close>, which is
  \<open>\<lfloor>(Capacity - b) / 2\<rfloor>\<close> for a room with \<open>Capacity \<ge> b\<close>. When the rooms have
  distinct names, that number is the sum of \<^verbatim>\<open>Count\<close> over the records the call
  appends for the course and the room.
\<close>

theorem sparse_half_limit:
  assumes "0 \<le> b" and "r \<in> set (rooms (allocate_session self slot b ''sparse''))"
  shows "int (seated_count r c) \<le> max 0 (Capacity r - b) div 2
     \<and> (b \<le> Capacity r \<longrightarrow> int (seated_count r c) \<le> (Capacity r - b) div 2)
     \<and> (distinct (map Room (rooms self)) \<longrightarrow>
          count_for c (Room r) (new_allocations self (allocate_session self slot b ''sparse''))
            = int (seated_count r c))"
proof (intro conjI impI)
  show h: "int (seated_count r c) \<le> max 0 (Capacity r - b) div 2"
    using assms(2) by (rule allocate_session_half)
  show "int (seated_count r c) \<le> (Capacity r - b) div 2" if "b \<le> Capacity r"
    using h that by simp
  show "count_for c (Room r) (new_allocations self (allocate_session self slot b ''sparse''))
          = int (seated_count r c)" if "distinct (map Room (rooms self))"
    using assms(2) that by (rule allocate_session_count_for)
qed

theorem sparse_half_limit_witness:
  "(0::int) \<le> 1
   \<and> hd (rooms (allocate_session example_system example_slot 1 ''sparse''))
        \<in> set (rooms (allocate_session example_system example_slot 1 ''sparse''))
   \<and> 1 \<le> Capacity (hd (rooms (allocate_session example_system example_slot 1 ''sparse'')))
   \<and> distinct (map Room (rooms example_system))
   \<and> seated_count (hd (rooms (allocate_session example_system example_slot 1 ''sparse''))) ''A'' = 2
   \<and> (Capacity (hd (rooms (allocate_session example_system example_slot 1 ''sparse''))) - 1) div 2 = 2
   \<and> count_for ''A'' (Room (hd (rooms (allocate_session example_system example_slot 1 ''sparse''))))
         (new_allocations example_system (allocate_session example_system example_slot 1 ''sparse'')) = 2"
proof -
  let ?r = "hd (rooms (allocate_session example_system example_slot 1 ''sparse''))"
  have a: "(0::int) \<le> 1" by simp
  have b: "?r \<in> set (rooms (allocate_session example_system example_slot 1 ''sparse''))"
    by (simp add: ex_simps)
  have c: "1 \<le> Capacity ?r" by (simp add: ex_simps)
  have d: "distinct (map Room (rooms example_system))" by (simp add: example_system_def)
  have e: "seated_count ?r ''A'' = 2" by (simp add: ex_simps seated_count_def)
  have f: "(Capacity ?r - 1) div 2 = 2" by (simp add: ex_simps)
  note t = sparse_half_limit[OF a b, of "''A''"]
  have g: "count_for ''A'' (Room ?r)
         (new_allocations example_system (allocate_session example_system example_slot 1 ''sparse''))
       = int (seated_count ?r ''A'')"
    using t d by blast
  have h: "count_for ''A'' (Room ?r)
         (new_allocations example_system (allocate_session example_system example_slot 1 ''sparse'')) = 2"
    using g e by simp
  show ?thesis using a b c d e f h by (intro conjI)
qed

theorem sparse_half_limit_counterexample:
  "(0::int) \<le> 5
   \<and> seated_count (rooms (allocate_session example_system example_slot 5 ''sparse'') ! 1) ''A'' = 0
   \<and> (Capacity (rooms (allocate_session example_system example_slot 5 ''sparse'') ! 1) - 5) div 2 = - 1
   \<and> \<not> int (seated_count (rooms (allocate_session example_system example_slot 5 ''sparse'') ! 1) ''A'')
        \<le> (Capacity (rooms (allocate_session example_system example_slot 5 ''sparse'') ! 1) - 5) div 2"
  by (simp add: ex_simps seated_count_def)

section \<open>The seated candidates of a course are a prefix of its roster\<close>

lemma distinct_concat_member:
  "distinct (concat (map f cs)) \<Longrightarrow> c \<in> set cs \<Longrightarrow> distinct (f c)"
  by (induction cs) auto

lemma prefix_rest:
  assumes "prefix xs ys" and "distinct ys"
  shows "set ys - set xs = set (drop (length xs) ys)"
proof -
  obtain zs where ys: "ys = xs @ zs" using assms(1) by (auto simp: prefix_def)
  have "set xs \<inter> set zs = {}" using assms(2) ys by simp
  then show ?thesis using ys by auto
qed

text \<open>
  C10. Prefix property: for a slot processed without a clash and a course of the
  slot, the candidates held by the records the call appends for the course,
  concatenated in append order, are a prefix of the roster of the course, and the
  candidates of the roster that are in none of these records are exactly those
  of the remaining suffix.
\<close>

theorem prefix_property:
  assumes "\<not> fst (check_clashes self (Courses slot))" and "c \<in> set (Courses slot)"
  shows "prefix (students_of_course c (new_allocations self (allocate_session self slot buffer mode)))
           (dict_get (course_enrollments self) c [])
     \<and> set (dict_get (course_enrollments self) c [])
         - set (students_of_course c (new_allocations self (allocate_session self slot buffer mode)))
       = set (drop (length (students_of_course c
                     (new_allocations self (allocate_session self slot buffer mode))))
                (dict_get (course_enrollments self) c []))"
proof (cases rule: allocate_session_cases[of self slot buffer mode])
  case clash
  then show ?thesis using assms(1) by simp
next
  case (clean rms recs)
  let ?enr = "course_enrollments self"
  have d: "distinct (concat (map (\<lambda>c. dict_get ?enr c []) (Courses slot)))"
    using clean(1) by (simp add: check_clashes_distinct)
  then have "distinct (concat (map (\<lambda>c. dict_get ?enr c []) (courses_sorted ?enr (Courses slot))))"
    by (simp add: courses_sorted_distinct)
  then have p: "prefix (students_of_course c recs) (dict_get ?enr c [])"
    using clean(2) by (rule seat_courses_prefix[rotated])
  have "distinct (dict_get ?enr c [])"
    using d assms(2) by (rule distinct_concat_member)
  then have "set (dict_get ?enr c []) - set (students_of_course c recs)
      = set (drop (length (students_of_course c recs)) (dict_get ?enr c []))"
    using p by (rule prefix_rest[rotated])
  then show ?thesis using p clean(3) by (simp add: new_allocations_append)
qed

theorem prefix_property_witness:
  "\<not> fst (check_clashes example_system (Courses example_slot))
   \<and> ''A'' \<in> set (Courses example_slot)
   \<and> students_of_course ''A''
         (new_allocations example_system (allocate_session example_system example_slot 1 ''sparse''))
       = [''a1'', ''a2'', ''a3'']
   \<and> dict_get (course_enrollments example_system) ''A'' [] = [''a1'', ''a2'', ''a3'', ''a4'', ''a5'']
   \<and> prefix (students_of_course ''A''
         (new_allocations example_system (allocate_session example_system example_slot 1 ''sparse'')))
         (dict_get (course_enrollments example_system) ''A'' [])"
proof -
  have a: "\<not> fst (check_clashes example_system (Courses example_slot))"
    by (simp add: ex_simps)
  have b: "''A'' \<in> set (Courses example_slot)" by (simp add: example_slot_def)
  have c: "students_of_course ''A''
         (new_allocations example_system (allocate_session example_system example_slot 1 ''sparse''))
       = [''a1'', ''a2'', ''a3'']"
    by (simp add: ex_simps students_of_course_def)
  have d: "dict_get (course_enrollments example_system) ''A'' [] = [''a1'', ''a2'', ''a3'', ''a4'', ''a5'']"
    by (simp add: ex_simps)
  have e: "prefix (students_of_course ''A''
         (new_allocations example_system (allocate_session example_system example_slot 1 ''sparse'')))
         (dict_get (course_enrollments example_system) ''A'' [])"
    using prefix_property[OF a b, of 1 "''sparse''"] by (elim conjE)
  show ?thesis using a b c d e by (intro conjI)
qed

section \<open>Largest course first\<close>

lemma courses_sorted_descending:
  "sorted_wrt (\<lambda>c d. length (dict_get enr d []) \<le> length (dict_get enr c []))
     (courses_sorted enr cs)"
proof -
  have "sorted (map (\<lambda>c. - int (length (dict_get enr c []))) (courses_sorted enr cs))"
    unfolding courses_sorted_def sorted_reverse_def by (rule sorted_sort_key)
  then show ?thesis by (simp add: sorted_wrt_map)
qed

lemma courses_sorted_stable:
  "filter (\<lambda>c. length (dict_get enr c []) = k) (courses_sorted enr cs)
     = filter (\<lambda>c. length (dict_get enr c []) = k) cs"
proof -
  have "filter (\<lambda>c. - int (length (dict_get enr c [])) = - int k) (courses_sorted enr cs)
     = filter (\<lambda>c. - int (length (dict_get enr c [])) = - int k) cs"
    unfolding courses_sorted_def sorted_reverse_def by (rule sort_key_stable)
  then show ?thesis by simp
qed

lemma remdups_adj_replicate_append:
  "remdups_adj (replicate (Suc k) c @ ys) = remdups_adj (c # ys)"
  by (induction k) simp_all

lemma subseq_remdups_adj_block:
  assumes "subseq (remdups_adj ys) cs"
  shows "subseq (remdups_adj (replicate k c @ ys)) (c # cs)"
proof (cases k)
  case 0
  then show ?thesis using assms by (simp add: list_emb_Cons)
next
  case (Suc n)
  have "subseq (remdups_adj (c # ys)) (c # cs)"
  proof (cases ys)
    case Nil
    then show ?thesis by simp
  next
    case (Cons y ys')
    show ?thesis
    proof (cases "c = y")
      case True
      then show ?thesis using assms Cons by (simp add: list_emb_Cons)
    next
      case False
      then show ?thesis using assms Cons by simp
    qed
  qed
  then show ?thesis using Suc by (simp only: remdups_adj_replicate_append)
qed

lemma seat_course_courses:
  assumes "seat_course slot b m c students rms = (left, rms', recs)"
  shows "map alloc_Course recs = replicate (length recs) c"
proof -
  have "\<forall>a \<in> set recs. alloc_Course a = c"
    using seat_course_recs[OF assms] by simp
  then show ?thesis by (induction recs) simp_all
qed

lemma seat_courses_order:
  assumes "seat_courses enr slot b m cs rms = (rms', recs)"
  shows "subseq (remdups_adj (map alloc_Course recs)) cs"
  using assms
proof (induction rule: seat_courses_induct)
  case (Nil rms)
  show ?case by simp
next
  case (Skip c cs rms rms' recs)
  then show ?case by (simp add: list_emb_Cons)
next
  case (Step c cs rms left rms1 recs1 rms' recs2)
  have "map alloc_Course (recs1 @ recs2)
          = replicate (length recs1) c @ map alloc_Course recs2"
    using seat_course_courses[OF Step.hyps(2)] by simp
  then show ?case using subseq_remdups_adj_block[OF Step.IH] by simp
qed

lemma allocate_session_order:
  "subseq (remdups_adj (map alloc_Course
       (new_allocations self (allocate_session self slot buffer mode))))
     (courses_sorted (course_enrollments self) (Courses slot))"
proof (cases rule: allocate_session_cases[of self slot buffer mode])
  case clash
  then show ?thesis by (simp add: new_allocations_same)
next
  case (clean rms recs)
  then show ?thesis using seat_courses_order[OF clean(2)] by (simp add: new_allocations_append)
qed

lemma courses_sorted_example:
  assumes "length (dict_get enr A []) = 50" and "length (dict_get enr B []) = 10"
    and "length (dict_get enr C []) = 30"
  shows "courses_sorted enr [A, B, C] = [A, C, B]"
  using assms by (simp add: courses_sorted_def sorted_reverse_def)

lemma seat_course_empty: "seat_course slot b m c [] rms = ([], rms, [])"
  by (cases rms) simp_all

lemma take_of_fits:
  assumes "m \<noteq> ''sparse''" and "0 \<le> filled r"
    and "filled r + int (length students) \<le> max 0 (Capacity r - b)"
  shows "take_of b m students r = int (length students)"
  using assms by (simp add: take_of_def)

lemma seat_course_fits:
  assumes "m \<noteq> ''sparse''" and "0 \<le> filled r" and "students \<noteq> []"
    and "filled r + int (length students) \<le> max 0 (Capacity r - b)"
  shows "\<exists>r' a. seat_course slot b m c students (r # rest) = ([], r' # rest, [a])
           \<and> Capacity r' = Capacity r \<and> filled r' = filled r + int (length students)
           \<and> alloc_Course a = c \<and> alloc_Students a = students"
proof -
  have t: "take_of b m students r = int (length students)"
    using assms(1,2,4) by (rule take_of_fits)
  then have pos: "0 < take_of b m students r" using assms(3) by simp
  have "seat_course slot b m c students (r # rest) =
      (case seat_in_room slot b m c students r of
         (students', room', recs) \<Rightarrow>
           (case seat_course slot b m c students' rest of
              (students'', rest', recs') \<Rightarrow> (students'', room' # rest', recs @ recs')))"
    using assms(3) by simp
  then show ?thesis
    unfolding seat_in_room_take[OF pos] t
    by (simp add: seat_course_empty)
qed

lemma seat_courses_fits:
  assumes "m \<noteq> ''sparse''" and "0 \<le> filled r"
    and "filled r + sum_list (map (\<lambda>c. int (length (dict_get enr c []))) cs)
           \<le> max 0 (Capacity r - b)"
  shows "map (\<lambda>a. (alloc_Course a, alloc_Students a))
           (snd (seat_courses enr slot b m cs (r # rest)))
       = map (\<lambda>c. (c, dict_get enr c [])) (filter (\<lambda>c. dict_get enr c [] \<noteq> []) cs)"
  using assms(2,3)
proof (induction cs arbitrary: r)
  case Nil
  show ?case by simp
next
  case (Cons c cs)
  show ?case
  proof (cases "dict_get enr c [] = []")
    case True
    then show ?thesis using Cons.IH[of r] Cons.prems by simp
  next
    case False
    have le: "0 \<le> sum_list (map (\<lambda>c. int (length (dict_get enr c []))) cs)"
      by (rule sum_list_nonneg) auto
    have fit: "filled r + int (length (dict_get enr c [])) \<le> max 0 (Capacity r - b)"
      using Cons.prems(2) le by simp
    obtain r' a where s: "seat_course slot b m c (dict_get enr c []) (r # rest) = ([], r' # rest, [a])"
      and r': "Capacity r' = Capacity r" "filled r' = filled r + int (length (dict_get enr c []))"
      and a: "alloc_Course a = c" "alloc_Students a = dict_get enr c []"
      using seat_course_fits[OF assms(1) Cons.prems(1) False fit, of slot c rest] by blast
    have ih: "map (\<lambda>a. (alloc_Course a, alloc_Students a))
           (snd (seat_courses enr slot b m cs (r' # rest)))
       = map (\<lambda>c. (c, dict_get enr c [])) (filter (\<lambda>c. dict_get enr c [] \<noteq> []) cs)"
      using Cons.IH[of r'] Cons.prems r' by simp
    have "seat_courses enr slot b m (c # cs) (r # rest) =
        (case seat_courses enr slot b m cs (r' # rest) of
           (rms'', recs') \<Rightarrow> (rms'', [a] @ recs'))"
      using False s by (simp add: Let_def)
    then have "snd (seat_courses enr slot b m (c # cs) (r # rest))
        = a # snd (seat_courses enr slot b m cs (r' # rest))"
      by (simp add: case_prod_beta)
    then show ?thesis using False a ih by simp
  qed
qed

lemma sum_list_courses_sorted:
  "sum_list (map f (courses_sorted enr cs)) = sum_list (map (f :: string \<Rightarrow> int) cs)"
proof -
  have "mset (map f (courses_sorted enr cs)) = mset (map f cs)"
    by (simp add: courses_sorted_mset)
  then show ?thesis by (metis sum_mset_sum_list)
qed

lemma allocate_session_fits:
  assumes "\<not> fst (check_clashes self (Courses slot))" and "mode \<noteq> ''sparse''"
    and "rooms self \<noteq> []"
    and "sum_list (map (\<lambda>c. int (length (dict_get (course_enrollments self) c []))) (Courses slot))
           \<le> Capacity (hd (rooms self)) - buffer"
  shows "map (\<lambda>a. (alloc_Course a, alloc_Students a))
           (new_allocations self (allocate_session self slot buffer mode))
       = map (\<lambda>c. (c, dict_get (course_enrollments self) c []))
           (filter (\<lambda>c. dict_get (course_enrollments self) c [] \<noteq> [])
              (courses_sorted (course_enrollments self) (Courses slot)))"
proof (cases rule: allocate_session_cases[of self slot buffer mode])
  case clash
  then show ?thesis using assms(1) by simp
next
  case (clean rms recs)
  let ?enr = "course_enrollments self"
  obtain r0 rest0 where rs: "rooms self = r0 # rest0"
    using assms(3) by (cases "rooms self") auto
  have m: "map reset_room (rooms self) = reset_room r0 # map reset_room rest0"
    using rs by simp
  have f: "0 \<le> filled (reset_room r0)" by (simp add: reset_room_def)
  have "sum_list (map (\<lambda>c. int (length (dict_get ?enr c []))) (courses_sorted ?enr (Courses slot)))
          \<le> Capacity r0 - buffer"
    using assms(4) rs by (simp add: sum_list_courses_sorted)
  then have g: "filled (reset_room r0)
        + sum_list (map (\<lambda>c. int (length (dict_get ?enr c []))) (courses_sorted ?enr (Courses slot)))
      \<le> max 0 (Capacity (reset_room r0) - buffer)"
    by (simp add: reset_room_def)
  have "map (\<lambda>a. (alloc_Course a, alloc_Students a))
           (snd (seat_courses ?enr slot buffer mode (courses_sorted ?enr (Courses slot))
                   (reset_room r0 # map reset_room rest0)))
       = map (\<lambda>c. (c, dict_get ?enr c []))
           (filter (\<lambda>c. dict_get ?enr c [] \<noteq> []) (courses_sorted ?enr (Courses slot)))"
    using assms(2) f g by (rule seat_courses_fits)
  then show ?thesis
    using clean(2,3) m by (simp add: new_allocations_append)
qed


lemma roster_of_length: "length (roster_of tag n) = n"
  by (simp add: roster_of_def)

lemma roster_of_distinct: "distinct (roster_of tag n)"
proof -
  have "inj_on (\<lambda>i. tag # replicate i CHR ''x'') (set [0..<n])"
  proof (rule inj_onI)
    fix i j
    assume "tag # replicate i CHR ''x'' = tag # replicate j CHR ''x''"
    then have "length (replicate i CHR ''x'') = length (replicate j CHR ''x'')" by simp
    then show "i = j" by simp
  qed
  then show ?thesis by (simp add: roster_of_def distinct_map)
qed

lemma roster_of_disjoint:
  "tag \<noteq> tag' \<Longrightarrow> set (roster_of tag n) \<inter> set (roster_of tag' k) = {}"
  by (auto simp: roster_of_def)

text \<open>
  C8. Largest-first ordering: \<^verbatim>\<open>allocate_session\<close> walks the courses of a slot in
  \<^verbatim>\<open>courses_sorted\<close> order, which is a rearrangement of the course list in
  descending enrolment size that keeps the source order among courses of equal
  size. The records appended for the slot come in that order, course by course;
  and when no clash is detected, the mode is not sparse and the first room has
  seats for all candidates of the slot, the call appends exactly one record per
  course with a non-empty roster, in that order, each holding the whole roster.
  In particular courses A (50 candidates), B (10) and C (30) are processed in the
  order A, C, B.
\<close>

theorem largest_first_ordering:
  "mset (courses_sorted (course_enrollments self) (Courses slot)) = mset (Courses slot)
   \<and> sorted_wrt (\<lambda>c d. length (dict_get (course_enrollments self) d [])
                       \<le> length (dict_get (course_enrollments self) c []))
        (courses_sorted (course_enrollments self) (Courses slot))
   \<and> (\<forall>k. filter (\<lambda>c. length (dict_get (course_enrollments self) c []) = k)
             (courses_sorted (course_enrollments self) (Courses slot))
           = filter (\<lambda>c. length (dict_get (course_enrollments self) c []) = k) (Courses slot))
   \<and> subseq (remdups_adj (map alloc_Course
          (new_allocations self (allocate_session self slot buffer mode))))
        (courses_sorted (course_enrollments self) (Courses slot))
   \<and> (\<not> fst (check_clashes self (Courses slot)) \<and> mode \<noteq> ''sparse'' \<and> rooms self \<noteq> []
        \<and> sum_list (map (\<lambda>c. int (length (dict_get (course_enrollments self) c [])))
              (Courses slot)) \<le> Capacity (hd (rooms self)) - buffer
      \<longrightarrow> map (\<lambda>a. (alloc_Course a, alloc_Students a))
            (new_allocations self (allocate_session self slot buffer mode))
          = map (\<lambda>c. (c, dict_get (course_enrollments self) c []))
              (filter (\<lambda>c. dict_get (course_enrollments self) c [] \<noteq> [])
                 (courses_sorted (course_enrollments self) (Courses slot))))
   \<and> (length (dict_get (course_enrollments self) A []) = 50
        \<and> length (dict_get (course_enrollments self) B []) = 10
        \<and> length (dict_get (course_enrollments self) C []) = 30
      \<longrightarrow> courses_sorted (course_enrollments self) [A, B, C] = [A, C, B])"
proof (intro conjI allI impI)
  show "mset (courses_sorted (course_enrollments self) (Courses slot)) = mset (Courses slot)"
    by (rule courses_sorted_mset)
  show "sorted_wrt (\<lambda>c d. length (dict_get (course_enrollments self) d [])
                       \<le> length (dict_get (course_enrollments self) c []))
        (courses_sorted (course_enrollments self) (Courses slot))"
    by (rule courses_sorted_descending)
  show "filter (\<lambda>c. length (dict_get (course_enrollments self) c []) = k)
             (courses_sorted (course_enrollments self) (Courses slot))
           = filter (\<lambda>c. length (dict_get (course_enrollments self) c []) = k) (Courses slot)" for k
    by (rule courses_sorted_stable)
  show "subseq (remdups_adj (map alloc_Course
          (new_allocations self (allocate_session self slot buffer mode))))
        (courses_sorted (course_enrollments self) (Courses slot))"
    by (rule allocate_session_order)
  show "map (\<lambda>a. (alloc_Course a, alloc_Students a))
            (new_allocations self (allocate_session self slot buffer mode))
          = map (\<lambda>c. (c, dict_get (course_enrollments self) c []))
              (filter (\<lambda>c. dict_get (course_enrollments self) c [] \<noteq> [])
                 (courses_sorted (course_enrollments self) (Courses slot)))"
    if "\<not> fst (check_clashes self (Courses slot)) \<and> mode \<noteq> ''sparse'' \<and> rooms self \<noteq> []
        \<and> sum_list (map (\<lambda>c. int (length (dict_get (course_enrollments self) c [])))
              (Courses slot)) \<le> Capacity (hd (rooms self)) - buffer"
    using that by (intro allocate_session_fits) simp_all
  show "courses_sorted (course_enrollments self) [A, B, C] = [A, C, B]"
    if "length (dict_get (course_enrollments self) A []) = 50
        \<and> length (dict_get (course_enrollments self) B []) = 10
        \<and> length (dict_get (course_enrollments self) C []) = 30"
    using that by (intro courses_sorted_example) simp_all
qed

theorem largest_first_ordering_witness:
  "length (dict_get (course_enrollments sized_system) ''A'' []) = 50
   \<and> length (dict_get (course_enrollments sized_system) ''B'' []) = 10
   \<and> length (dict_get (course_enrollments sized_system) ''C'' []) = 30
   \<and> Courses sized_slot = [''A'', ''B'', ''C'']
   \<and> \<not> fst (check_clashes sized_system (Courses sized_slot))
   \<and> ''dense'' \<noteq> ''sparse'' \<and> rooms sized_system \<noteq> []
   \<and> sum_list (map (\<lambda>c. int (length (dict_get (course_enrollments sized_system) c [])))
         (Courses sized_slot)) \<le> Capacity (hd (rooms sized_system)) - 5
   \<and> courses_sorted (course_enrollments sized_system) (Courses sized_slot) = [''A'', ''C'', ''B'']
   \<and> map alloc_Course
         (new_allocations sized_system (allocate_session sized_system sized_slot 5 ''dense''))
       = [''A'', ''C'', ''B'']
   \<and> map (\<lambda>a. length (alloc_Students a))
         (new_allocations sized_system (allocate_session sized_system sized_slot 5 ''dense''))
       = [50, 30, 10]"
proof -
  let ?enr = "course_enrollments sized_system"
  have ra: "dict_get ?enr ''A'' [] = roster_of CHR ''a'' 50"
    and rb: "dict_get ?enr ''B'' [] = roster_of CHR ''b'' 10"
    and rc: "dict_get ?enr ''C'' [] = roster_of CHR ''c'' 30"
    by (simp_all add: sized_system_def dict_get_def)
  have a: "length (dict_get ?enr ''A'' []) = 50" by (simp add: ra roster_of_length)
  have b: "length (dict_get ?enr ''B'' []) = 10" by (simp add: rb roster_of_length)
  have c: "length (dict_get ?enr ''C'' []) = 30" by (simp add: rc roster_of_length)
  have cs: "Courses sized_slot = [''A'', ''B'', ''C'']"
    by (simp add: sized_slot_def)
  have "distinct (concat (map (\<lambda>c. dict_get ?enr c []) (Courses sized_slot)))"
    unfolding cs
    by (simp add: ra rb rc roster_of_distinct roster_of_disjoint Int_Un_distrib)
  then have d: "\<not> fst (check_clashes sized_system (Courses sized_slot))"
    by (simp add: check_clashes_distinct)
  have e: "''dense'' \<noteq> ''sparse''" by simp
  have f: "rooms sized_system \<noteq> []" by (simp add: sized_system_def)
  have g: "sum_list (map (\<lambda>c. int (length (dict_get ?enr c []))) (Courses sized_slot))
             \<le> Capacity (hd (rooms sized_system)) - 5"
    unfolding cs using a b c by (simp add: sized_system_def)
  note t = largest_first_ordering[of sized_system sized_slot 5 "''dense''" "''A''" "''B''" "''C''"]
  have h: "courses_sorted ?enr (Courses sized_slot) = [''A'', ''C'', ''B'']"
    unfolding cs using t a b c by blast
  have i: "map (\<lambda>a. (alloc_Course a, alloc_Students a))
            (new_allocations sized_system (allocate_session sized_system sized_slot 5 ''dense''))
          = map (\<lambda>c. (c, dict_get ?enr c []))
              (filter (\<lambda>c. dict_get ?enr c [] \<noteq> []) (courses_sorted ?enr (Courses sized_slot)))"
    using t d e f g by blast
  have ne: "dict_get ?enr ''A'' [] \<noteq> []" "dict_get ?enr ''B'' [] \<noteq> []"
      "dict_get ?enr ''C'' [] \<noteq> []"
    using a b c by auto
  have j: "map (\<lambda>a. (alloc_Course a, alloc_Students a))
            (new_allocations sized_system (allocate_session sized_system sized_slot 5 ''dense''))
          = [(''A'', dict_get ?enr ''A'' []), (''C'', dict_get ?enr ''C'' []),
             (''B'', dict_get ?enr ''B'' [])]"
    using i ne unfolding h by simp
  have k: "map alloc_Course
         (new_allocations sized_system (allocate_session sized_system sized_slot 5 ''dense''))
       = [''A'', ''C'', ''B'']"
    using arg_cong[OF j, of "map fst"] by (simp add: comp_def)
  have l: "map (\<lambda>a. length (alloc_Students a))
         (new_allocations sized_system (allocate_session sized_system sized_slot 5 ''dense''))
       = [50, 30, 10]"
    using arg_cong[OF j, of "map (\<lambda>p. length (snd p))"] a b c by (simp add: comp_def)
  show ?thesis using a b c cs d e f g h k l by (intro conjI)
qed

end
